theory Spec2Isabelle
  imports Main "HOL-Library.Product_Lexorder" "HOL-Library.Multiset" "HOL-Library.Log_Nat"
begin

section \<open>The notification service of server_fastapi/services/notification_service.py\<close>

text \<open>
  The service keeps three attributes: a dictionary from user id to that user's list of
  notifications, the id counter, and a dictionary from user id to the user's listener
  callbacks. Every coroutine of the class becomes a function that takes the store and
  returns the new store beside its result. Readings of the clock
  (\<^verbatim>\<open>datetime.now(timezone.utc)\<close>) are parameters: an instant is a number of
  microseconds since the epoch.
\<close>

subsection \<open>Data model\<close>

datatype NotificationPriority = LOW | MEDIUM | HIGH | URGENT

datatype NotificationCategory = TRADE | BOT | MARKET | SYSTEM | PORTFOLIO | RISK

text \<open>The member's \<^verbatim>\<open>.value\<close>.\<close>

fun priority_value :: "NotificationPriority \<Rightarrow> string" where
  "priority_value LOW = ''low''"
| "priority_value MEDIUM = ''medium''"
| "priority_value HIGH = ''high''"
| "priority_value URGENT = ''urgent''"

fun category_value :: "NotificationCategory \<Rightarrow> string" where
  "category_value TRADE = ''trade''"
| "category_value BOT = ''bot''"
| "category_value MARKET = ''market''"
| "category_value SYSTEM = ''system''"
| "category_value PORTFOLIO = ''portfolio''"
| "category_value RISK = ''risk''"

text \<open>
  A \<^verbatim>\<open>datetime\<close> given by a caller either carries a time zone (then it denotes an
  instant) or is naive (then it is a wall-clock reading only). The service stores
  \<^verbatim>\<open>expires_at.isoformat()\<close> and reads it back with \<^verbatim>\<open>fromisoformat\<close>, which
  returns the datetime that was written, so the stored string is modelled by that
  datetime. Python refuses to order a naive datetime against an aware one.
\<close>

datatype datetime = Naive int | Aware int

text \<open>
  The exceptions the service can end with: the \<^verbatim>\<open>TypeError\<close> Python raises itself,
  and an exception a listener raises (by its name).
\<close>

datatype py_error = TypeError | Raised string

text \<open>
  The values of the \<^verbatim>\<open>data\<close> dictionary are arbitrary Python objects; the service
  never looks inside them. They are modelled by the values JSON can carry.
\<close>

datatype py_any =
    PyNone | PyBool bool | PyInt int | PyStr string
  | PyList "py_any list" | PyDict "(string \<times> py_any) list"

type_synonym payload = "(string \<times> py_any) list"

record notification =
  n_id :: int
  n_user_id :: int
  n_title :: string
  n_message :: string
  n_level :: string
  n_category :: string
  n_priority :: string
  n_data :: payload
  n_timestamp :: int
  n_created_at :: int
  n_read :: bool
  n_read_at :: "int option"
  n_expires_at :: "datetime option"

text \<open>
  A listener is any callable. Called with a record it either raises (the exception's
  name) or returns an object; what it returns is either not awaitable or is a
  coroutine, as for the coroutine function the websocket route registers, and awaiting
  a coroutine either completes (\<open>None\<close>) or raises (the exception's name). Python
  compares callbacks by identity, which \<open>cb_id\<close> stands for. Listeners are taken not
  to call back into the service.
\<close>

datatype py_object = NotAwaitable | Coroutine (awaited: "string option")

datatype call_result = Raises string | Returns (returned: py_object)

datatype callback = Callback (cb_id: nat) (cb_body: "notification \<Rightarrow> call_result")

text \<open>One awaited callback: which callback, the record it was called with, how it ended.\<close>

type_synonym delivery = "nat \<times> notification \<times> string option"

record store =
  notifications :: "int \<rightharpoonup> notification list"
  notification_id_counter :: int
  listeners :: "int \<rightharpoonup> callback list"

text \<open>\<^verbatim>\<open>__init__\<close>\<close>

definition init_store :: store where
  "init_store = \<lparr>notifications = Map.empty, notification_id_counter = 1, listeners = Map.empty\<rparr>"

text \<open>\<^verbatim>\<open>self.notifications.get(user_id, [])\<close>\<close>

definition user_notifications :: "store \<Rightarrow> int \<Rightarrow> notification list" where
  "user_notifications s user_id = (case notifications s user_id of None \<Rightarrow> [] | Some ns \<Rightarrow> ns)"

subsection \<open>Title derivation\<close>

definition level_titles :: "string \<rightharpoonup> string" where
  "level_titles = [''info'' \<mapsto> ''Information'', ''warning'' \<mapsto> ''Warning'',
                   ''error'' \<mapsto> ''Error'', ''success'' \<mapsto> ''Success'']"

fun category_titles :: "NotificationCategory \<Rightarrow> string" where
  "category_titles TRADE = ''Trade''"
| "category_titles BOT = ''Bot''"
| "category_titles MARKET = ''Market''"
| "category_titles SYSTEM = ''System''"
| "category_titles PORTFOLIO = ''Portfolio''"
| "category_titles RISK = ''Risk''"

text \<open>
  \<^verbatim>\<open>_generate_title\<close>: both dictionaries are read with \<^verbatim>\<open>.get(key, 'Notification')\<close>;
  an absent category (\<^verbatim>\<open>None\<close>) is not a key of \<^verbatim>\<open>category_titles\<close>.
\<close>

definition generate_title :: "string \<Rightarrow> NotificationCategory option \<Rightarrow> string" where
  "generate_title level category =
     (let category_title = (case category of None \<Rightarrow> ''Notification'' | Some c \<Rightarrow> category_titles c);
          level_title = (case level_titles level of None \<Rightarrow> ''Notification'' | Some t \<Rightarrow> t)
      in category_title @ '' '' @ level_title)"

subsection \<open>Pruning\<close>

text \<open>
  The condition of the comprehension in \<^verbatim>\<open>_cleanup_expired_notifications\<close>:
  \<^verbatim>\<open>n.get('expires_at') is None or datetime.fromisoformat(n['expires_at']) > current_time\<close>,
  where \<^verbatim>\<open>current_time\<close> is aware.
\<close>

definition not_expired :: "int \<Rightarrow> notification \<Rightarrow> py_error + bool" where
  "not_expired current_time n =
     (case n_expires_at n of
        None \<Rightarrow> Inr True
      | Some (Aware e) \<Rightarrow> Inr (e > current_time)
      | Some (Naive w) \<Rightarrow> Inl TypeError)"

text \<open>The comprehension: an exception in the condition abandons the whole list.\<close>

fun cleanup_filter :: "int \<Rightarrow> notification list \<Rightarrow> py_error + notification list" where
  "cleanup_filter current_time [] = Inr []"
| "cleanup_filter current_time (n # ns) =
     (case not_expired current_time n of
        Inl e \<Rightarrow> Inl e
      | Inr keep \<Rightarrow>
          (case cleanup_filter current_time ns of
             Inl e \<Rightarrow> Inl e
           | Inr ks \<Rightarrow> Inr (if keep then n # ks else ks)))"

definition cleanup_expired_notifications :: "store \<Rightarrow> int \<Rightarrow> int \<Rightarrow> py_error + store" where
  "cleanup_expired_notifications s user_id current_time =
     (case notifications s user_id of
        None \<Rightarrow> Inr s
      | Some ns \<Rightarrow>
          (case cleanup_filter current_time ns of
             Inl e \<Rightarrow> Inl e
           | Inr ks \<Rightarrow> Inr (s\<lparr>notifications := (notifications s)(user_id \<mapsto> ks)\<rparr>)))"

subsection \<open>Listeners\<close>

text \<open>
  The comprehension \<^verbatim>\<open>[cb(notification) for cb in self.listeners[user_id]]\<close>: the
  callbacks are called in registration order; a call that raises ends the
  comprehension, and nothing of what the earlier calls returned is awaited.
\<close>

fun call_listeners :: "notification \<Rightarrow> callback list \<Rightarrow> py_error + (nat \<times> py_object) list" where
  "call_listeners n [] = Inr []"
| "call_listeners n (cb # cbs) =
     (case cb_body cb n of
        Raises e \<Rightarrow> Inl (Raised e)
      | Returns obj \<Rightarrow>
          (case call_listeners n cbs of
             Inl e \<Rightarrow> Inl e
           | Inr tasks \<Rightarrow> Inr ((cb_id cb, obj) # tasks)))"

text \<open>
  \<^verbatim>\<open>asyncio.gather(*tasks, return_exceptions=True)\<close>: an argument that is not awaitable
  makes \<^verbatim>\<open>gather\<close> itself raise \<^verbatim>\<open>TypeError\<close>; otherwise every coroutine is awaited
  and an exception it raises is one of the gathered results.
\<close>

fun gather :: "notification \<Rightarrow> (nat \<times> py_object) list \<Rightarrow> py_error + delivery list" where
  "gather n [] = Inr []"
| "gather n ((i, obj) # tasks) =
     (case obj of
        NotAwaitable \<Rightarrow> Inl TypeError
      | Coroutine outcome \<Rightarrow>
          (case gather n tasks of
             Inl e \<Rightarrow> Inl e
           | Inr ds \<Rightarrow> Inr ((i, n, outcome) # ds)))"

text \<open>
  \<^verbatim>\<open>_notify_listeners\<close>: the exception it ends with, or what was awaited, in
  registration order.
\<close>

definition notify_listeners :: "store \<Rightarrow> int \<Rightarrow> notification \<Rightarrow> py_error + delivery list" where
  "notify_listeners s user_id n =
     (case listeners s user_id of
        None \<Rightarrow> Inr []
      | Some cbs \<Rightarrow>
          (case call_listeners n cbs of
             Inl e \<Rightarrow> Inl e
           | Inr tasks \<Rightarrow> gather n tasks))"

definition add_listener :: "store \<Rightarrow> int \<Rightarrow> callback \<Rightarrow> store" where
  "add_listener s user_id cb =
     (let ls = (if user_id \<notin> dom (listeners s) then (listeners s)(user_id \<mapsto> []) else listeners s)
      in s\<lparr>listeners := ls(user_id \<mapsto> (case ls user_id of None \<Rightarrow> [] | Some cbs \<Rightarrow> cbs) @ [cb])\<rparr>)"

definition remove_listener :: "store \<Rightarrow> int \<Rightarrow> callback \<Rightarrow> store" where
  "remove_listener s user_id cb =
     (case listeners s user_id of
        None \<Rightarrow> s
      | Some cbs \<Rightarrow>
          s\<lparr>listeners := (listeners s)(user_id \<mapsto> filter (\<lambda>c. cb_id c \<noteq> cb_id cb) cbs)\<rparr>)"

subsection \<open>Creation\<close>

text \<open>
  The arguments of \<^verbatim>\<open>create_notification\<close> after \<^verbatim>\<open>user_id\<close>, and the defaults of its
  signature.
\<close>

record create_args =
  arg_message :: string
  arg_level :: string
  arg_title :: "string option"
  arg_category :: "NotificationCategory option"
  arg_priority :: NotificationPriority
  arg_data :: "payload option"
  arg_expires_at :: "datetime option"

definition default_args :: "string \<Rightarrow> create_args" where
  "default_args msg =
     \<lparr>arg_message = msg, arg_level = ''info'', arg_title = None, arg_category = None,
      arg_priority = MEDIUM, arg_data = None, arg_expires_at = None\<rparr>"

text \<open>
  The dictionary literal of \<^verbatim>\<open>create_notification\<close>. The clock is read for
  \<^verbatim>\<open>timestamp\<close> and again for \<^verbatim>\<open>created_at\<close>. \<^verbatim>\<open>title or ...\<close> and
  \<^verbatim>\<open>data or {}\<close> take the right-hand side also for an empty string and an empty
  dictionary.
\<close>

definition new_record :: "int \<Rightarrow> int \<Rightarrow> create_args \<Rightarrow> int \<Rightarrow> int \<Rightarrow> notification" where
  "new_record notification_id user_id a t_timestamp t_created =
     \<lparr>n_id = notification_id,
      n_user_id = user_id,
      n_title = (case arg_title a of
                   None \<Rightarrow> generate_title (arg_level a) (arg_category a)
                 | Some t \<Rightarrow> if t = [] then generate_title (arg_level a) (arg_category a) else t),
      n_message = arg_message a,
      n_level = arg_level a,
      n_category = (case arg_category a of None \<Rightarrow> ''system'' | Some c \<Rightarrow> category_value c),
      n_priority = priority_value (arg_priority a),
      n_data = (case arg_data a of None \<Rightarrow> [] | Some d \<Rightarrow> if d = [] then [] else d),
      n_timestamp = t_timestamp,
      n_created_at = t_created,
      n_read = False,
      n_read_at = None,
      n_expires_at = arg_expires_at a\<rparr>"

text \<open>
  \<^verbatim>\<open>create_notification\<close>. The third clock reading is the one of the pruning. The
  result is the exception or the record, the store as the call leaves it, and, for a
  call that returns, the awaited callbacks. An exception of the fan-out comes after
  the append.
\<close>

definition create_notification ::
  "store \<Rightarrow> int \<Rightarrow> create_args \<Rightarrow> int \<Rightarrow> int \<Rightarrow> int \<Rightarrow> (py_error + notification) \<times> store \<times> delivery list" where
  "create_notification s user_id a t_timestamp t_created t_cleanup =
     (let notification_id = notification_id_counter s;
          s1 = s\<lparr>notification_id_counter := notification_id_counter s + 1\<rparr>;
          n = new_record notification_id user_id a t_timestamp t_created;
          s2 = (if user_id \<notin> dom (notifications s1)
                then s1\<lparr>notifications := (notifications s1)(user_id \<mapsto> [])\<rparr> else s1)
      in case cleanup_expired_notifications s2 user_id t_cleanup of
           Inl e \<Rightarrow> (Inl e, s2, [])
         | Inr s3 \<Rightarrow>
             (let s4 = s3\<lparr>notifications :=
                           (notifications s3)(user_id \<mapsto> user_notifications s3 user_id @ [n])\<rparr>
              in case notify_listeners s4 user_id n of
                   Inl e \<Rightarrow> (Inl e, s4, [])
                 | Inr ds \<Rightarrow> (Inr n, s4, ds)))"

text \<open>
  Specification predicate: no stored expiry of the user is a naive datetime, which is
  when the pruning inside \<^verbatim>\<open>create_notification\<close> does not raise.
\<close>

definition tz_aware :: "notification \<Rightarrow> bool" where
  "tz_aware n = (case n_expires_at n of Some (Naive w) \<Rightarrow> False | _ \<Rightarrow> True)"

definition prunable :: "store \<Rightarrow> int \<Rightarrow> bool" where
  "prunable s user_id = list_all tz_aware (user_notifications s user_id)"

text \<open>Specification predicate: what the pruning keeps at instant \<open>t\<close>.\<close>

definition unexpired :: "int \<Rightarrow> notification \<Rightarrow> bool" where
  "unexpired t n = (case n_expires_at n of None \<Rightarrow> True | Some (Aware e) \<Rightarrow> t < e | Some (Naive w) \<Rightarrow> False)"

subsection \<open>Queries\<close>

text \<open>
  The slice \<^verbatim>\<open>xs[:limit]\<close>: a negative \<^verbatim>\<open>limit\<close> counts from the end of the list.
\<close>

definition py_slice_to :: "int \<Rightarrow> 'a list \<Rightarrow> 'a list" where
  "py_slice_to limit xs =
     (if 0 \<le> limit then take (nat limit) xs else take (nat (int (length xs) + limit)) xs)"

text \<open>
  \<^verbatim>\<open>priority_order\<close> enumerates the priority members in declaration order and is read
  with \<^verbatim>\<open>.get(..., 1)\<close>.
\<close>

definition priority_order :: "string \<Rightarrow> int" where
  "priority_order p =
     (if p = ''low'' then 0 else if p = ''medium'' then 1 else if p = ''high'' then 2
      else if p = ''urgent'' then 3 else 1)"

text \<open>
  \<^verbatim>\<open>datetime.timestamp()\<close> of an aware datetime is the float nearest to its
  microseconds since the epoch divided by a million (an integer true division, which
  Python rounds correctly). A float is modelled by the rational it denotes:
  \<open>to_double\<close> rounds a rational to the nearest binary64 number, ties to the even
  mantissa. The exponent range is left out: the timestamp of every datetime, from
  year 1 to year 9999, is zero or of a magnitude between a millionth and \<open>2 ^ 38\<close>.
\<close>

definition floor_log2 :: "rat \<Rightarrow> int" where
  "floor_log2 x = (if 1 \<le> x then bitlen \<lfloor>x\<rfloor> - 1 else - bitlen (\<lceil>1 / x\<rceil> - 1))"

definition round_half_even :: "rat \<Rightarrow> int" where
  "round_half_even y =
     (let f = \<lfloor>y\<rfloor>; d = y - of_int f
      in if d < 1 / 2 then f else if 1 / 2 < d then f + 1 else if even f then f else f + 1)"

definition to_double :: "rat \<Rightarrow> rat" where
  "to_double x =
     (if x = 0 then 0
      else (let e = floor_log2 \<bar>x\<bar> - 52
            in sgn x * of_int (round_half_even (\<bar>x\<bar> / 2 powi e)) * 2 powi e))"

definition posix_timestamp :: "int \<Rightarrow> rat" where
  "posix_timestamp m = to_double (of_int m / 1000000)"

text \<open>
  \<^verbatim>\<open>sort_key\<close>: the pair is compared lexicographically; its second component is the
  float timestamp of the creation instant, negated.
\<close>

definition sort_key_of :: "notification \<Rightarrow> int \<times> rat" where
  "sort_key_of n = (- priority_order (n_priority n), - posix_timestamp (n_timestamp n))"

text \<open>
  \<^verbatim>\<open>get_recent_notifications\<close>. A filter is applied when its argument is truthy: an
  enum member always is, an empty list is not. \<^verbatim>\<open>sorted\<close> is stable, as \<open>sort_key\<close> is.
\<close>

definition get_recent_notifications ::
  "store \<Rightarrow> int \<Rightarrow> int \<Rightarrow> NotificationCategory option \<Rightarrow> bool \<Rightarrow> NotificationPriority list option
     \<Rightarrow> notification list" where
  "get_recent_notifications s user_id limit category unread_only priority_filter =
     (let filtered0 = user_notifications s user_id;
          filtered1 = (case category of
                         None \<Rightarrow> filtered0
                       | Some c \<Rightarrow> filter (\<lambda>n. n_category n = category_value c) filtered0);
          filtered2 = (if unread_only then filter (\<lambda>n. \<not> n_read n) filtered1 else filtered1);
          filtered3 = (case priority_filter of
                         None \<Rightarrow> filtered2
                       | Some pf \<Rightarrow>
                           if pf = [] then filtered2
                           else (let priority_values = map priority_value pf
                                 in filter (\<lambda>n. n_priority n \<in> set priority_values) filtered2))
      in py_slice_to limit (sort_key sort_key_of filtered3))"

text \<open>\<^verbatim>\<open>get_unread_count\<close>\<close>

definition get_unread_count ::
  "store \<Rightarrow> int \<Rightarrow> NotificationCategory option \<Rightarrow> NotificationPriority list option \<Rightarrow> nat" where
  "get_unread_count s user_id category priority_filter =
     (let unread0 = filter (\<lambda>n. \<not> n_read n) (user_notifications s user_id);
          unread1 = (case category of
                       None \<Rightarrow> unread0
                     | Some c \<Rightarrow> filter (\<lambda>n. n_category n = category_value c) unread0);
          unread2 = (case priority_filter of
                       None \<Rightarrow> unread1
                     | Some pf \<Rightarrow>
                         if pf = [] then unread1
                         else (let priority_values = map priority_value pf
                               in filter (\<lambda>n. n_priority n \<in> set priority_values) unread1))
      in length unread2)"

text \<open>\<^verbatim>\<open>get_notification_stats\<close>: the two counting loops build a dictionary each.\<close>

record notification_stats =
  st_total :: nat
  st_unread :: nat
  st_categories :: "string \<rightharpoonup> nat"
  st_priorities :: "string \<rightharpoonup> nat"

definition count_by :: "(notification \<Rightarrow> string) \<Rightarrow> notification list \<Rightarrow> (string \<rightharpoonup> nat)" where
  "count_by f ns =
     fold (\<lambda>n m. m(f n \<mapsto> (case m (f n) of None \<Rightarrow> 0 | Some c \<Rightarrow> c) + 1)) ns Map.empty"

definition get_notification_stats :: "store \<Rightarrow> int \<Rightarrow> notification_stats" where
  "get_notification_stats s user_id =
     (let user_ns = user_notifications s user_id
      in \<lparr>st_total = length user_ns,
          st_unread = length (filter (\<lambda>n. \<not> n_read n) user_ns),
          st_categories = count_by n_category user_ns,
          st_priorities = count_by n_priority user_ns\<rparr>)"

subsection \<open>Read marking and deletion\<close>

text \<open>
  The loop of \<^verbatim>\<open>mark_as_read\<close> returns at the first record with the id. The records
  are dictionaries mutated in place; no record is in two lists, so the list with the
  record replaced is the list after the call.
\<close>

fun mark_loop :: "int \<Rightarrow> int \<Rightarrow> notification list \<Rightarrow> bool \<times> notification list" where
  "mark_loop notification_id now [] = (False, [])"
| "mark_loop notification_id now (n # ns) =
     (if n_id n = notification_id
      then (True, (if \<not> n_read n then n\<lparr>n_read := True, n_read_at := Some now\<rparr> else n) # ns)
      else (case mark_loop notification_id now ns of (found, ms) \<Rightarrow> (found, n # ms)))"

definition mark_as_read :: "store \<Rightarrow> int \<Rightarrow> int \<Rightarrow> int \<Rightarrow> bool \<times> store" where
  "mark_as_read s user_id notification_id now =
     (case notifications s user_id of
        None \<Rightarrow> (False, s)
      | Some ns \<Rightarrow>
          (case mark_loop notification_id now ns of
             (found, ms) \<Rightarrow> (found, s\<lparr>notifications := (notifications s)(user_id \<mapsto> ms)\<rparr>)))"

text \<open>
  \<^verbatim>\<open>mark_all_as_read\<close> reads the clock once for each record it marks: \<open>clk k\<close> is the
  reading taken when \<open>k\<close> records have been marked so far.
\<close>

fun mark_all_loop ::
  "NotificationCategory option \<Rightarrow> (nat \<Rightarrow> int) \<Rightarrow> nat \<Rightarrow> notification list \<Rightarrow> nat \<times> notification list" where
  "mark_all_loop category clk cnt [] = (cnt, [])"
| "mark_all_loop category clk cnt (n # ns) =
     (if \<not> n_read n \<and> (category = None \<or> Some (n_category n) = map_option category_value category)
      then (case mark_all_loop category clk (cnt + 1) ns of
              (c, ms) \<Rightarrow> (c, n\<lparr>n_read := True, n_read_at := Some (clk cnt)\<rparr> # ms))
      else (case mark_all_loop category clk cnt ns of (c, ms) \<Rightarrow> (c, n # ms)))"

definition mark_all_as_read ::
  "store \<Rightarrow> int \<Rightarrow> NotificationCategory option \<Rightarrow> (nat \<Rightarrow> int) \<Rightarrow> nat \<times> store" where
  "mark_all_as_read s user_id category clk =
     (case notifications s user_id of
        None \<Rightarrow> (0, s)
      | Some ns \<Rightarrow>
          (case mark_all_loop category clk 0 ns of
             (c, ms) \<Rightarrow> (c, s\<lparr>notifications := (notifications s)(user_id \<mapsto> ms)\<rparr>)))"

definition delete_notification :: "store \<Rightarrow> int \<Rightarrow> int \<Rightarrow> bool \<times> store" where
  "delete_notification s user_id notification_id =
     (case notifications s user_id of
        None \<Rightarrow> (False, s)
      | Some ns \<Rightarrow>
          (let ks = filter (\<lambda>n. n_id n \<noteq> notification_id) ns
           in (length ks < length ns, s\<lparr>notifications := (notifications s)(user_id \<mapsto> ks)\<rparr>)))"

subsection \<open>Broadcast\<close>

text \<open>
  \<^verbatim>\<open>broadcast_notification\<close> builds one \<^verbatim>\<open>create_notification\<close> coroutine for each
  element of \<^verbatim>\<open>user_ids\<close> (without \<^verbatim>\<open>expires_at\<close>) and gathers them.
  \<^verbatim>\<open>asyncio.gather\<close> starts the coroutines in the order given; a creation does not
  suspend before it has appended its record, so the creations act on the store one
  after the other. Without \<^verbatim>\<open>return_exceptions\<close> the first exception raised is the
  one the caller of \<^verbatim>\<open>gather\<close> receives, and the other coroutines are not cancelled.
  \<open>clk i\<close> gives the three clock readings of the \<open>i\<close>-th creation.
\<close>

fun broadcast_loop ::
  "store \<Rightarrow> int list \<Rightarrow> create_args \<Rightarrow> (nat \<Rightarrow> int \<times> int \<times> int)
     \<Rightarrow> (py_error + notification) list \<times> store \<times> delivery list" where
  "broadcast_loop s [] a clk = ([], s, [])"
| "broadcast_loop s (user_id # user_ids) a clk =
     (case clk 0 of (t1, t2, t3) \<Rightarrow>
        (case create_notification s user_id (a\<lparr>arg_expires_at := None\<rparr>) t1 t2 t3 of
           (r, s', ds) \<Rightarrow>
             (case broadcast_loop s' user_ids a (\<lambda>i. clk (Suc i)) of
                (rs, s'', ds') \<Rightarrow> (r # rs, s'', ds @ ds'))))"

fun first_error :: "(py_error + notification) list \<Rightarrow> py_error option" where
  "first_error [] = None"
| "first_error (Inl e # rs) = Some e"
| "first_error (Inr n # rs) = first_error rs"

definition broadcast_notification ::
  "store \<Rightarrow> int list \<Rightarrow> create_args \<Rightarrow> (nat \<Rightarrow> int \<times> int \<times> int) \<Rightarrow> py_error option \<times> store" where
  "broadcast_notification s user_ids a clk =
     (case broadcast_loop s user_ids a clk of (rs, s', ds) \<Rightarrow> (first_error rs, s'))"

subsection \<open>Sequences of calls\<close>

datatype command =
    Create int create_args int int int
  | GetRecent int int "NotificationCategory option" bool "NotificationPriority list option"
  | MarkAsRead int int int
  | MarkAllAsRead int "NotificationCategory option" "nat \<Rightarrow> int"
  | Delete int int
  | GetUnreadCount int "NotificationCategory option" "NotificationPriority list option"
  | Broadcast "int list" create_args "nat \<Rightarrow> int \<times> int \<times> int"
  | AddListener int callback
  | RemoveListener int callback
  | GetStats int

text \<open>The store after a call.\<close>

fun exec :: "command \<Rightarrow> store \<Rightarrow> store" where
  "exec (Create u a t1 t2 t3) s = fst (snd (create_notification s u a t1 t2 t3))"
| "exec (GetRecent u limit c unread_only pf) s = s"
| "exec (MarkAsRead u i now) s = snd (mark_as_read s u i now)"
| "exec (MarkAllAsRead u c clk) s = snd (mark_all_as_read s u c clk)"
| "exec (Delete u i) s = snd (delete_notification s u i)"
| "exec (GetUnreadCount u c pf) s = s"
| "exec (Broadcast us a clk) s = snd (broadcast_notification s us a clk)"
| "exec (AddListener u cb) s = add_listener s u cb"
| "exec (RemoveListener u cb) s = remove_listener s u cb"
| "exec (GetStats u) s = s"

text \<open>The user ids a call is invoked for.\<close>

fun command_users :: "command \<Rightarrow> int set" where
  "command_users (Create u a t1 t2 t3) = {u}"
| "command_users (GetRecent u limit c unread_only pf) = {u}"
| "command_users (MarkAsRead u i now) = {u}"
| "command_users (MarkAllAsRead u c clk) = {u}"
| "command_users (Delete u i) = {u}"
| "command_users (GetUnreadCount u c pf) = {u}"
| "command_users (Broadcast us a clk) = set us"
| "command_users (AddListener u cb) = {u}"
| "command_users (RemoveListener u cb) = {u}"
| "command_users (GetStats u) = {u}"

text \<open>The ids of the records a call creates: of the one it returns, or of those a broadcast gathers.\<close>

fun result_ids :: "(py_error + notification) list \<Rightarrow> int list" where
  "result_ids [] = []"
| "result_ids (Inl e # rs) = result_ids rs"
| "result_ids (Inr n # rs) = n_id n # result_ids rs"


fun run :: "command list \<Rightarrow> store \<Rightarrow> store" where
  "run [] s = s"
| "run (c # cs) s = run cs (exec c s)"


text \<open>
  Specification predicate: the ids stored for a user, and the invariant of the stores
  the service reaches: every stored id is below the counter and is stored once.
\<close>

definition stored_ids :: "store \<Rightarrow> int \<Rightarrow> int list" where
  "stored_ids s user_id = map n_id (user_notifications s user_id)"

definition store_inv :: "store \<Rightarrow> bool" where
  "store_inv s \<longleftrightarrow>
     (\<forall>u. distinct (stored_ids s u) \<and> (\<forall>i \<in> set (stored_ids s u). i < notification_id_counter s)) \<and>
     (\<forall>u v. u \<noteq> v \<longrightarrow> set (stored_ids s u) \<inter> set (stored_ids s v) = {})"

subsection \<open>Specification predicates for the list\<close>






subsection \<open>Example stores\<close>


definition store_two :: store where
  "store_two = run [Create 1 (default_args ''first'') 10 10 10,
                    Create 2 (default_args ''second'') 20 20 20] init_store"

text \<open>
  Two coroutine functions registered as listeners for user 1 on the initial store;
  awaiting what the first one returns raises.
\<close>

definition failing_listener :: callback where
  "failing_listener = Callback 0 (\<lambda>n. Returns (Coroutine (Some ''ConnectionError'')))"

definition working_listener :: callback where
  "working_listener = Callback 1 (\<lambda>n. Returns (Coroutine None))"

definition store_listening :: store where
  "store_listening = run [AddListener 1 failing_listener, AddListener 1 working_listener] init_store"

text \<open>
  A plain function that raises when it is called, registered for user 1 before the
  working listener.
\<close>

definition raising_listener :: callback where
  "raising_listener = Callback 2 (\<lambda>n. Raises ''RuntimeError'')"

definition store_raising :: store where
  "store_raising = run [AddListener 1 raising_listener, AddListener 1 working_listener] init_store"

text \<open>
  The two coroutine functions registered for user 1, who holds a record created at
  instant 10 with an expiry at instant 5.
\<close>

definition store_busy :: store where
  "store_busy =
     run [AddListener 1 failing_listener, AddListener 1 working_listener,
          Create 1 ((default_args ''old'')\<lparr>arg_expires_at := Some (Aware 5)\<rparr>) 10 10 10] init_store"

text \<open>
  A store in which user 1 holds a record whose expiry was given as a naive datetime.
\<close>

definition store_naive :: store where
  "store_naive =
     run [Create 1 ((default_args ''old'')\<lparr>arg_expires_at := Some (Naive 5)\<rparr>) 10 10 10] init_store"

text \<open>
  A store in which user 1 holds a record with a naive expiry, user 2 has registered
  the function that raises when called, and user 3 the coroutine function whose
  awaiting raises.
\<close>

definition store_troubled :: store where
  "store_troubled =
     run [Create 1 ((default_args ''old'')\<lparr>arg_expires_at := Some (Naive 5)\<rparr>) 10 10 10,
          AddListener 2 raising_listener, AddListener 3 failing_listener] init_store"

text \<open>
  A store in which user 1 holds a record created at instant 10 with an expiry at
  instant 5.
\<close>

definition store_expired :: store where
  "store_expired =
     run [Create 1 ((default_args ''old'')\<lparr>arg_expires_at := Some (Aware 5)\<rparr>) 10 10 10] init_store"



section \<open>Lemmas on pruning and creation\<close>

lemma cleanup_filter_ok:
  "list_all tz_aware ns \<Longrightarrow> cleanup_filter t ns = Inr (filter (unexpired t) ns)"
  by (induction ns)
     (auto simp: not_expired_def tz_aware_def unexpired_def split: option.splits datetime.splits)

lemma cleanup_filter_raises:
  "\<not> list_all tz_aware ns \<Longrightarrow> cleanup_filter t ns = Inl TypeError"
proof (induction ns)
  case Nil
  then show ?case by simp
next
  case (Cons n ns)
  show ?case
  proof (cases "tz_aware n")
    case True
    with Cons.prems have "\<not> list_all tz_aware ns" by simp
    then have "cleanup_filter t ns = Inl TypeError" by (rule Cons.IH)
    moreover from True obtain b where "not_expired t n = Inr b"
      by (auto simp: not_expired_def tz_aware_def split: option.splits datetime.splits)
    ultimately show ?thesis by simp
  next
    case False
    then have "not_expired t n = Inl TypeError"
      by (simp add: not_expired_def tz_aware_def split: option.splits datetime.splits)
    then show ?thesis by simp
  qed
qed

lemma notify_listeners_cong:
  "listeners s' = listeners s \<Longrightarrow> notify_listeners s' u n = notify_listeners s u n"
  by (simp add: notify_listeners_def)

lemma create_success:
  assumes "prunable s u"
  shows "create_notification s u a t1 t2 t3 =
     (let n = new_record (notification_id_counter s) u a t1 t2;
          s' = s\<lparr>notification_id_counter := notification_id_counter s + 1,
                 notifications := (notifications s)(u \<mapsto> filter (unexpired t3) (user_notifications s u) @ [n])\<rparr>
      in case notify_listeners s u n of
           Inl e \<Rightarrow> (Inl e, s', [])
         | Inr ds \<Rightarrow> (Inr n, s', ds))"
  using assms
  by (auto simp: create_notification_def cleanup_expired_notifications_def prunable_def
      user_notifications_def cleanup_filter_ok Let_def notify_listeners_def
      split: option.splits sum.splits)

lemma create_failure:
  assumes "\<not> prunable s u"
  shows "create_notification s u a t1 t2 t3 =
     (Inl TypeError, s\<lparr>notification_id_counter := notification_id_counter s + 1\<rparr>, [])"
  using assms
  by (auto simp: create_notification_def cleanup_expired_notifications_def prunable_def
      user_notifications_def cleanup_filter_raises Let_def split: option.splits)

lemma create_store:
  "fst (snd (create_notification s u a t1 t2 t3)) =
     (if prunable s u
      then s\<lparr>notification_id_counter := notification_id_counter s + 1,
             notifications := (notifications s)(u \<mapsto> filter (unexpired t3) (user_notifications s u)
                @ [new_record (notification_id_counter s) u a t1 t2])\<rparr>
      else s\<lparr>notification_id_counter := notification_id_counter s + 1\<rparr>)"
  by (simp add: create_success create_failure Let_def split: sum.splits)

lemma create_result:
  "fst (create_notification s u a t1 t2 t3) =
     (if prunable s u
      then (case notify_listeners s u (new_record (notification_id_counter s) u a t1 t2) of
              Inl e \<Rightarrow> Inl e
            | Inr ds \<Rightarrow> Inr (new_record (notification_id_counter s) u a t1 t2))
      else Inl TypeError)"
  by (simp add: create_success create_failure Let_def split: sum.splits)

lemma create_deliveries:
  "snd (snd (create_notification s u a t1 t2 t3)) =
     (if prunable s u
      then (case notify_listeners s u (new_record (notification_id_counter s) u a t1 t2) of
              Inl e \<Rightarrow> []
            | Inr ds \<Rightarrow> ds)
      else [])"
  by (simp add: create_success create_failure Let_def split: sum.splits)

lemma call_listeners_returning:
  assumes "\<forall>cb \<in> set cbs. \<exists>obj. cb_body cb n = Returns obj"
  shows "call_listeners n cbs = Inr (map (\<lambda>cb. (cb_id cb, returned (cb_body cb n))) cbs)"
  using assms by (induction cbs) auto

lemma gather_coroutines:
  assumes "\<forall>t \<in> set tasks. \<exists>r. snd t = Coroutine r"
  shows "gather n tasks = Inr (map (\<lambda>t. (fst t, n, awaited (snd t))) tasks)"
  using assms by (induction tasks) auto

lemma notify_listeners_awaitable:
  assumes "listeners s u = Some cbs"
    and "\<forall>cb \<in> set cbs. \<exists>r. cb_body cb n = Returns (Coroutine r)"
  shows "notify_listeners s u n =
           Inr (map (\<lambda>cb. (cb_id cb, n, awaited (returned (cb_body cb n)))) cbs)"
proof -
  from assms(2) have "\<forall>cb \<in> set cbs. \<exists>obj. cb_body cb n = Returns obj" by blast
  then have c: "call_listeners n cbs = Inr (map (\<lambda>cb. (cb_id cb, returned (cb_body cb n))) cbs)"
    by (rule call_listeners_returning)
  from assms(2)
  have "\<forall>t \<in> set (map (\<lambda>cb. (cb_id cb, returned (cb_body cb n))) cbs). \<exists>r. snd t = Coroutine r"
    by auto
  from gather_coroutines [OF this, of n] show ?thesis
    by (simp add: notify_listeners_def assms(1) c comp_def)
qed

lemma notify_listeners_none: "listeners s u = None \<Longrightarrow> notify_listeners s u n = Inr []"
  by (simp add: notify_listeners_def)

lemma level_title_explicit:
  "(case level_titles l of None \<Rightarrow> ''Notification'' | Some t \<Rightarrow> t) =
     (if l = ''info'' then ''Information'' else if l = ''warning'' then ''Warning''
      else if l = ''error'' then ''Error'' else if l = ''success'' then ''Success''
      else ''Notification'')"
  by (simp add: level_titles_def)


lemma mark_loop_ids: "map n_id (snd (mark_loop i now ns)) = map n_id ns"
  by (induction ns) (simp_all add: case_prod_beta)

lemma mark_all_loop_ids: "map n_id (snd (mark_all_loop c clk k ns)) = map n_id ns"
  by (induction ns arbitrary: k) (simp_all add: case_prod_beta)

lemma create_cases:
  obtains (ok) "prunable s u"
      "fst (snd (create_notification s u a t1 t2 t3)) =
         s\<lparr>notification_id_counter := notification_id_counter s + 1,
           notifications := (notifications s)(u \<mapsto> filter (unexpired t3) (user_notifications s u)
              @ [new_record (notification_id_counter s) u a t1 t2])\<rparr>"
  | (raise) "\<not> prunable s u"
      "fst (snd (create_notification s u a t1 t2 t3)) =
         s\<lparr>notification_id_counter := notification_id_counter s + 1\<rparr>"
  by (cases "prunable s u") (simp_all add: create_store)

lemma create_counter:
  "notification_id_counter (fst (snd (create_notification s u a t1 t2 t3))) = notification_id_counter s + 1"
  by (rule create_cases [of s u a t1 t2 t3]) simp_all

lemma create_frame:
  "v \<noteq> u \<Longrightarrow> notifications (fst (snd (create_notification s u a t1 t2 t3))) v = notifications s v"
  by (rule create_cases [of s u a t1 t2 t3]) simp_all

lemma create_listeners:
  "listeners (fst (snd (create_notification s u a t1 t2 t3))) = listeners s"
  by (rule create_cases [of s u a t1 t2 t3]) simp_all


subsection \<open>The invariant of reachable stores\<close>

lemma stored_ids_upd:
  "stored_ids (s\<lparr>notifications := (notifications s)(u \<mapsto> ns)\<rparr>) v =
     (if v = u then map n_id ns else stored_ids s v)"
  by (simp add: stored_ids_def user_notifications_def)

lemma stored_ids_counter_upd [simp]:
  "stored_ids (s\<lparr>notification_id_counter := k\<rparr>) v = stored_ids s v"
  by (simp add: stored_ids_def user_notifications_def)

lemma stored_ids_listeners_upd [simp]:
  "stored_ids (s\<lparr>listeners := l\<rparr>) v = stored_ids s v"
  by (simp add: stored_ids_def user_notifications_def)

lemma store_inv_same:
  assumes "\<And>v. stored_ids s' v = stored_ids s v"
    and "notification_id_counter s' = notification_id_counter s"
  shows "store_inv s' = store_inv s"
  by (simp add: store_inv_def assms)

lemma store_inv_below: "store_inv s \<Longrightarrow> i \<in> set (stored_ids s v) \<Longrightarrow> i < notification_id_counter s"
  by (simp add: store_inv_def)

lemma store_inv_distinct: "store_inv s \<Longrightarrow> distinct (stored_ids s v)"
  by (simp add: store_inv_def)

lemma store_inv_disjoint:
  "store_inv s \<Longrightarrow> v \<noteq> w \<Longrightarrow> i \<in> set (stored_ids s v) \<Longrightarrow> i \<notin> set (stored_ids s w)"
  unfolding store_inv_def by (meson disjoint_iff)

lemma store_invI:
  assumes "\<And>v. distinct (stored_ids s v)"
    and "\<And>v i. i \<in> set (stored_ids s v) \<Longrightarrow> i < notification_id_counter s"
    and "\<And>v w i. v \<noteq> w \<Longrightarrow> i \<in> set (stored_ids s v) \<Longrightarrow> i \<notin> set (stored_ids s w)"
  shows "store_inv s"
  unfolding store_inv_def disjoint_iff using assms by blast

lemma store_inv_shrink:
  assumes inv: "store_inv s"
    and sub: "\<And>v. set (stored_ids s' v) \<subseteq> set (stored_ids s v)"
    and dis: "\<And>v. distinct (stored_ids s' v)"
    and cnt: "notification_id_counter s \<le> notification_id_counter s'"
  shows "store_inv s'"
proof (rule store_invI)
  show "distinct (stored_ids s' v)" for v by (rule dis)
next
  fix v i assume "i \<in> set (stored_ids s' v)"
  with sub have "i \<in> set (stored_ids s v)" by blast
  from store_inv_below [OF inv this] cnt show "i < notification_id_counter s'" by simp
next
  fix v w i assume vw: "v \<noteq> w" and "i \<in> set (stored_ids s' v)"
  with sub have "i \<in> set (stored_ids s v)" by blast
  from store_inv_disjoint [OF inv vw this] sub show "i \<notin> set (stored_ids s' w)" by blast
qed

lemma mark_as_read_ids: "stored_ids (snd (mark_as_read s u i now)) v = stored_ids s v"
  by (simp add: mark_as_read_def stored_ids_upd case_prod_beta mark_loop_ids stored_ids_def
        user_notifications_def split: option.splits)

lemma mark_as_read_counter:
  "notification_id_counter (snd (mark_as_read s u i now)) = notification_id_counter s"
  by (simp add: mark_as_read_def case_prod_beta split: option.splits)

lemma mark_all_as_read_ids: "stored_ids (snd (mark_all_as_read s u c clk)) v = stored_ids s v"
  by (simp add: mark_all_as_read_def stored_ids_upd case_prod_beta mark_all_loop_ids stored_ids_def
        user_notifications_def split: option.splits)

lemma mark_all_as_read_counter:
  "notification_id_counter (snd (mark_all_as_read s u c clk)) = notification_id_counter s"
  by (simp add: mark_all_as_read_def case_prod_beta split: option.splits)

lemma store_inv_mark_as_read:
  "store_inv s \<Longrightarrow> store_inv (snd (mark_as_read s u i now))"
  by (simp add: store_inv_same [OF mark_as_read_ids mark_as_read_counter])

lemma store_inv_mark_all_as_read:
  "store_inv s \<Longrightarrow> store_inv (snd (mark_all_as_read s u c clk))"
  by (simp add: store_inv_same [OF mark_all_as_read_ids mark_all_as_read_counter])

lemma delete_ids:
  "stored_ids (snd (delete_notification s u i)) v =
     (if v = u then filter (\<lambda>j. j \<noteq> i) (stored_ids s u) else stored_ids s v)"
  by (simp add: delete_notification_def Let_def stored_ids_def user_notifications_def
        filter_map comp_def split: option.splits)

lemma delete_counter:
  "notification_id_counter (snd (delete_notification s u i)) = notification_id_counter s"
  by (simp add: delete_notification_def Let_def split: option.splits)

lemma store_inv_delete:
  assumes "store_inv s" shows "store_inv (snd (delete_notification s u i))"
proof (rule store_inv_shrink [OF assms])
  show "\<And>v. set (stored_ids (snd (delete_notification s u i)) v) \<subseteq> set (stored_ids s v)"
    by (auto simp: delete_ids)
  show "\<And>v. distinct (stored_ids (snd (delete_notification s u i)) v)"
    using assms by (simp add: delete_ids store_inv_def)
  show "notification_id_counter s \<le> notification_id_counter (snd (delete_notification s u i))"
    by (simp add: delete_counter)
qed

lemma store_inv_add_listener: "store_inv s \<Longrightarrow> store_inv (add_listener s u cb)"
  by (subst store_inv_same [of _ s]) (simp_all add: add_listener_def Let_def)

lemma store_inv_remove_listener: "store_inv s \<Longrightarrow> store_inv (remove_listener s u cb)"
  by (subst store_inv_same [of _ s]) (simp_all add: remove_listener_def split: option.splits)


lemma store_inv_create:
  assumes "store_inv s"
  shows "store_inv (fst (snd (create_notification s u a t1 t2 t3)))"
proof (rule create_cases [of s u a t1 t2 t3])
  assume "\<not> prunable s u"
    and eq: "fst (snd (create_notification s u a t1 t2 t3)) =
      s\<lparr>notification_id_counter := notification_id_counter s + 1\<rparr>"
  have "store_inv (s\<lparr>notification_id_counter := notification_id_counter s + 1\<rparr>)"
    by (rule store_inv_shrink [OF assms]) (simp_all add: store_inv_distinct [OF assms])
  then show ?thesis by (simp add: eq)
next
  let ?n = "new_record (notification_id_counter s) u a t1 t2"
  let ?s' = "s\<lparr>notification_id_counter := notification_id_counter s + 1,
           notifications := (notifications s)(u \<mapsto> filter (unexpired t3) (user_notifications s u) @ [?n])\<rparr>"
  assume "prunable s u"
    and eq: "fst (snd (create_notification s u a t1 t2 t3)) = ?s'"
  have ids: "\<And>v. stored_ids ?s' v =
      (if v = u then map n_id (filter (unexpired t3) (user_notifications s u)) @ [notification_id_counter s]
       else stored_ids s v)"
    by (simp add: stored_ids_def user_notifications_def new_record_def)
  have sub: "set (map n_id (filter (unexpired t3) (user_notifications s u))) \<subseteq> set (stored_ids s u)"
    by (auto simp: stored_ids_def)
  have dis: "distinct (map n_id (filter (unexpired t3) (user_notifications s u)))"
    using assms by (simp add: store_inv_def stored_ids_def distinct_map_filter)
  have below: "\<And>v i. i \<in> set (stored_ids s v) \<Longrightarrow> i < notification_id_counter s"
    using assms by (simp add: store_inv_def)
  have disj: "\<And>v w. v \<noteq> w \<Longrightarrow> set (stored_ids s v) \<inter> set (stored_ids s w) = {}"
    using assms by (simp add: store_inv_def)
  have cnt: "notification_id_counter ?s' = notification_id_counter s + 1" by simp
  have fresh: "notification_id_counter s \<notin> set (stored_ids s v)" for v
    using below [of "notification_id_counter s" v] by auto
  have fresh': "notification_id_counter s \<notin> set (map n_id (filter (unexpired t3) (user_notifications s u)))"
    using sub fresh [of u] by blast
  have 1: "distinct (stored_ids ?s' v)" for v
  proof (cases "v = u")
    case True
    then show ?thesis unfolding ids using dis fresh' by simp
  next
    case False
    then show ?thesis unfolding ids using assms by (simp add: store_inv_def)
  qed
  have 2: "i < notification_id_counter ?s'" if "i \<in> set (stored_ids ?s' v)" for v i
  proof (cases "v = u")
    case True
    with that have "i \<in> set (stored_ids s u) \<or> i = notification_id_counter s"
      unfolding ids using sub by auto
    then show ?thesis using below [of i u] by auto
  next
    case False
    with that have "i \<in> set (stored_ids s v)" unfolding ids by simp
    then show ?thesis using below [of i v] by simp
  qed
  have sub': "set (stored_ids ?s' v) \<subseteq> set (stored_ids s v) \<union> {notification_id_counter s}" for v
    unfolding ids using sub by auto
  have 3: "set (stored_ids ?s' v) \<inter> set (stored_ids ?s' w) = {}" if "v \<noteq> w" for v w
  proof (rule ccontr)
    assume "set (stored_ids ?s' v) \<inter> set (stored_ids ?s' w) \<noteq> {}"
    then obtain i where iv: "i \<in> set (stored_ids ?s' v)" and iw: "i \<in> set (stored_ids ?s' w)"
      by blast
    show False
    proof (cases "v = u")
      case True
      with that have wu: "w \<noteq> u" by simp
      from iw wu have a: "i \<in> set (stored_ids s w)" unfolding ids by simp
      with fresh [of w] have "i \<noteq> notification_id_counter s" by auto
      with iv sub' [of v] True have "i \<in> set (stored_ids s u)" by auto
      with a disj [OF wu] show False by blast
    next
      case False
      from iv False have a: "i \<in> set (stored_ids s v)" unfolding ids by simp
      with fresh [of v] have "i \<noteq> notification_id_counter s" by auto
      with iw sub' [of w] have "i \<in> set (stored_ids s w)" by auto
      with a disj [OF that] show False by blast
    qed
  qed
  have "store_inv ?s'"
  proof (rule store_invI)
    show "distinct (stored_ids ?s' v)" for v by (rule 1)
    show "i < notification_id_counter ?s'" if "i \<in> set (stored_ids ?s' v)" for v i
      using that by (rule 2)
    show "i \<notin> set (stored_ids ?s' w)" if "v \<noteq> w" "i \<in> set (stored_ids ?s' v)" for v w i
      using 3 [OF that(1)] that(2) by blast
  qed
  then show ?thesis by (simp add: eq)
qed


lemma store_inv_broadcast_loop:
  "store_inv s \<Longrightarrow> store_inv (fst (snd (broadcast_loop s us a clk)))"
proof (induction us arbitrary: s clk)
  case Nil
  then show ?case by simp
next
  case (Cons u us)
  obtain t1 t2 t3 where c: "clk 0 = (t1, t2, t3)" by (cases "clk 0") auto
  from Cons.prems have "store_inv (fst (snd (create_notification s u (a\<lparr>arg_expires_at := None\<rparr>) t1 t2 t3)))"
    by (rule store_inv_create)
  from Cons.IH [OF this] show ?case
    by (simp add: c case_prod_beta)
qed

lemma store_inv_exec: "store_inv s \<Longrightarrow> store_inv (exec c s)"
  by (cases c)
     (simp_all add: store_inv_create store_inv_mark_as_read store_inv_mark_all_as_read
        store_inv_delete store_inv_add_listener store_inv_remove_listener
        store_inv_broadcast_loop broadcast_notification_def case_prod_beta)

lemma store_inv_init: "store_inv init_store"
  by (simp add: store_inv_def init_store_def stored_ids_def user_notifications_def)

lemma store_inv_run: "store_inv s \<Longrightarrow> store_inv (run cs s)"
  by (induction cs arbitrary: s) (simp_all add: store_inv_exec)

subsection \<open>Other users' collections\<close>

lemma broadcast_loop_frame:
  "v \<notin> set us \<Longrightarrow> notifications (fst (snd (broadcast_loop s us a clk))) v = notifications s v"
proof (induction us arbitrary: s clk)
  case Nil
  then show ?case by simp
next
  case (Cons u us)
  obtain t1 t2 t3 where c: "clk 0 = (t1, t2, t3)" by (cases "clk 0") auto
  from Cons.prems have "v \<noteq> u" "v \<notin> set us" by auto
  with Cons.IH [of "fst (snd (create_notification s u (a\<lparr>arg_expires_at := None\<rparr>) t1 t2 t3))" "\<lambda>i. clk (Suc i)"]
  show ?case by (simp add: c case_prod_beta create_frame)
qed

lemma mark_as_read_frame:
  "v \<noteq> u \<Longrightarrow> notifications (snd (mark_as_read s u i now)) v = notifications s v"
  by (simp add: mark_as_read_def case_prod_beta split: option.splits)

lemma mark_all_as_read_frame:
  "v \<noteq> u \<Longrightarrow> notifications (snd (mark_all_as_read s u c clk)) v = notifications s v"
  by (simp add: mark_all_as_read_def case_prod_beta split: option.splits)

lemma delete_frame:
  "v \<noteq> u \<Longrightarrow> notifications (snd (delete_notification s u i)) v = notifications s v"
  by (simp add: delete_notification_def Let_def split: option.splits)

lemma add_listener_notifications: "notifications (add_listener s u cb) = notifications s"
  by (simp add: add_listener_def Let_def)

lemma remove_listener_notifications: "notifications (remove_listener s u cb) = notifications s"
  by (simp add: remove_listener_def split: option.splits)

lemma exec_frame:
  "v \<notin> command_users c \<Longrightarrow> notifications (exec c s) v = notifications s v"
  by (cases c)
     (simp_all add: create_frame mark_as_read_frame mark_all_as_read_frame delete_frame
        add_listener_notifications remove_listener_notifications broadcast_loop_frame
        broadcast_notification_def case_prod_beta)

section \<open>Default category and derived title\<close>

text \<open>
  C9: in a call with both \<^verbatim>\<open>title\<close> and \<^verbatim>\<open>category\<close> omitted, the record created
  has the string \<^verbatim>\<open>system\<close> as its category field, and its title is \<^verbatim>\<open>Notification\<close>
  followed by the title of the level (\<^verbatim>\<open>Information\<close>, \<^verbatim>\<open>Warning\<close>, \<^verbatim>\<open>Error\<close>,
  \<^verbatim>\<open>Success\<close>, or \<^verbatim>\<open>Notification\<close> for any other level), not \<^verbatim>\<open>System\<close> followed by
  it: the default category goes into the stored field only, the title is derived from
  the absent one. This holds of every record the call returns, and of the record the
  call appends whenever its pruning does not raise; that record is returned when every
  listener of the user returns a coroutine.
\<close>

theorem create_without_title_and_category:
  assumes "arg_title a = None" and "arg_category a = None"
  shows "(\<forall>n. fst (create_notification s u a t1 t2 t3) = Inr n \<longrightarrow>
            n_category n = ''system''
            \<and> n_title n = ''Notification '' @
                 (if arg_level a = ''info'' then ''Information''
                  else if arg_level a = ''warning'' then ''Warning''
                  else if arg_level a = ''error'' then ''Error''
                  else if arg_level a = ''success'' then ''Success'' else ''Notification'')
            \<and> n_title n \<noteq> ''System '' @
                 (if arg_level a = ''info'' then ''Information''
                  else if arg_level a = ''warning'' then ''Warning''
                  else if arg_level a = ''error'' then ''Error''
                  else if arg_level a = ''success'' then ''Success'' else ''Notification''))
       \<and> (prunable s u \<longrightarrow>
            (\<exists>n. user_notifications (fst (snd (create_notification s u a t1 t2 t3))) u
                    = filter (unexpired t3) (user_notifications s u) @ [n]
               \<and> n_category n = ''system''
               \<and> n_title n = ''Notification '' @
                    (if arg_level a = ''info'' then ''Information''
                     else if arg_level a = ''warning'' then ''Warning''
                     else if arg_level a = ''error'' then ''Error''
                     else if arg_level a = ''success'' then ''Success'' else ''Notification'')
               \<and> n_title n \<noteq> ''System '' @
                    (if arg_level a = ''info'' then ''Information''
                     else if arg_level a = ''warning'' then ''Warning''
                     else if arg_level a = ''error'' then ''Error''
                     else if arg_level a = ''success'' then ''Success'' else ''Notification'')
               \<and> ((\<forall>cbs. listeners s u = Some cbs \<longrightarrow>
                       (\<forall>cb \<in> set cbs. \<exists>r. cb_body cb n = Returns (Coroutine r)))
                    \<longrightarrow> fst (create_notification s u a t1 t2 t3) = Inr n)))"
proof -
  let ?n = "new_record (notification_id_counter s) u a t1 t2"
  let ?lt = "if arg_level a = ''info'' then ''Information''
             else if arg_level a = ''warning'' then ''Warning''
             else if arg_level a = ''error'' then ''Error''
             else if arg_level a = ''success'' then ''Success'' else ''Notification''"
  have c: "n_category ?n = ''system''" using assms by (simp add: new_record_def)
  have "n_title ?n = ''Notification '' @
      (case level_titles (arg_level a) of None \<Rightarrow> ''Notification'' | Some t \<Rightarrow> t)"
    using assms by (simp add: new_record_def generate_title_def)
  then have t: "n_title ?n = ''Notification '' @ ?lt" by (simp only: level_title_explicit)
  then have nt: "n_title ?n \<noteq> ''System '' @ ?lt" by simp
  have ret: "fst (create_notification s u a t1 t2 t3) = Inr n \<Longrightarrow> n = ?n" for n
    by (simp add: create_result split: if_splits sum.splits)
  have un: "prunable s u \<Longrightarrow> user_notifications (fst (snd (create_notification s u a t1 t2 t3))) u
      = filter (unexpired t3) (user_notifications s u) @ [?n]"
    by (simp add: create_store user_notifications_def)
  have ok: "fst (create_notification s u a t1 t2 t3) = Inr ?n"
    if "prunable s u"
      and "\<forall>cbs. listeners s u = Some cbs \<longrightarrow> (\<forall>cb \<in> set cbs. \<exists>r. cb_body cb ?n = Returns (Coroutine r))"
  proof (cases "listeners s u")
    case None
    with that(1) show ?thesis by (simp add: create_result notify_listeners_none)
  next
    case (Some cbs)
    with that(2) have "\<forall>cb \<in> set cbs. \<exists>r. cb_body cb ?n = Returns (Coroutine r)" by simp
    from notify_listeners_awaitable [OF Some this] that(1) show ?thesis
      by (simp add: create_result)
  qed
  show ?thesis
  proof (intro conjI allI impI)
    fix n assume "fst (create_notification s u a t1 t2 t3) = Inr n"
    then have n: "n = ?n" by (rule ret)
    show "n_category n = ''system''" unfolding n by (rule c)
    show "n_title n = ''Notification '' @ ?lt" unfolding n by (rule t)
    show "n_title n \<noteq> ''System '' @ ?lt" unfolding n by (rule nt)
  next
    assume p: "prunable s u"
    show "\<exists>n. user_notifications (fst (snd (create_notification s u a t1 t2 t3))) u
                    = filter (unexpired t3) (user_notifications s u) @ [n]
               \<and> n_category n = ''system''
               \<and> n_title n = ''Notification '' @ ?lt
               \<and> n_title n \<noteq> ''System '' @ ?lt
               \<and> ((\<forall>cbs. listeners s u = Some cbs \<longrightarrow>
                       (\<forall>cb \<in> set cbs. \<exists>r. cb_body cb n = Returns (Coroutine r)))
                    \<longrightarrow> fst (create_notification s u a t1 t2 t3) = Inr n)"
      using un [OF p] c t nt ok [OF p] by blast
  qed
qed

theorem create_without_title_and_category_witness:
  "arg_title ((default_args ''w'')\<lparr>arg_level := ''warning''\<rparr>) = None
   \<and> arg_category ((default_args ''w'')\<lparr>arg_level := ''warning''\<rparr>) = None
   \<and> prunable store_busy 1
   \<and> (\<exists>n. user_notifications
             (fst (snd (create_notification store_busy 1 ((default_args ''w'')\<lparr>arg_level := ''warning''\<rparr>) 30 30 30))) 1
            = filter (unexpired 30) (user_notifications store_busy 1) @ [n]
          \<and> n_category n = ''system''
          \<and> n_title n = ''Notification '' @
               (if arg_level ((default_args ''w'')\<lparr>arg_level := ''warning''\<rparr>) = ''info'' then ''Information''
                else if arg_level ((default_args ''w'')\<lparr>arg_level := ''warning''\<rparr>) = ''warning'' then ''Warning''
                else if arg_level ((default_args ''w'')\<lparr>arg_level := ''warning''\<rparr>) = ''error'' then ''Error''
                else if arg_level ((default_args ''w'')\<lparr>arg_level := ''warning''\<rparr>) = ''success'' then ''Success''
                else ''Notification'')
          \<and> n_title n \<noteq> ''System '' @
               (if arg_level ((default_args ''w'')\<lparr>arg_level := ''warning''\<rparr>) = ''info'' then ''Information''
                else if arg_level ((default_args ''w'')\<lparr>arg_level := ''warning''\<rparr>) = ''warning'' then ''Warning''
                else if arg_level ((default_args ''w'')\<lparr>arg_level := ''warning''\<rparr>) = ''error'' then ''Error''
                else if arg_level ((default_args ''w'')\<lparr>arg_level := ''warning''\<rparr>) = ''success'' then ''Success''
                else ''Notification'')
          \<and> ((\<forall>cbs. listeners store_busy 1 = Some cbs \<longrightarrow>
                  (\<forall>cb \<in> set cbs. \<exists>r. cb_body cb n = Returns (Coroutine r)))
               \<longrightarrow> fst (create_notification store_busy 1 ((default_args ''w'')\<lparr>arg_level := ''warning''\<rparr>) 30 30 30) = Inr n))
   \<and> map (\<lambda>l. map n_title (user_notifications
            (fst (snd (create_notification store_busy 1 ((default_args ''w'')\<lparr>arg_level := l\<rparr>) 30 30 30))) 1))
        [''info'', ''warning'', ''error'', ''success'', ''debug'']
      = [[''Notification Information''], [''Notification Warning''], [''Notification Error''],
         [''Notification Success''], [''Notification Notification'']]
   \<and> map n_category (user_notifications
        (fst (snd (create_notification store_busy 1 ((default_args ''w'')\<lparr>arg_level := ''warning''\<rparr>) 30 30 30))) 1)
      = [''system'']"
proof -
  have h1: "arg_title ((default_args ''w'')\<lparr>arg_level := ''warning''\<rparr>) = None"
    by (simp add: default_args_def)
  have h2: "arg_category ((default_args ''w'')\<lparr>arg_level := ''warning''\<rparr>) = None"
    by (simp add: default_args_def)
  have h3: "prunable store_busy 1" by code_simp
  note t = create_without_title_and_category [OF h1 h2, of store_busy 1 30 30 30,
      THEN conjunct2, rule_format, OF h3]
  have e: "map (\<lambda>l. map n_title (user_notifications
            (fst (snd (create_notification store_busy 1 ((default_args ''w'')\<lparr>arg_level := l\<rparr>) 30 30 30))) 1))
        [''info'', ''warning'', ''error'', ''success'', ''debug'']
      = [[''Notification Information''], [''Notification Warning''], [''Notification Error''],
         [''Notification Success''], [''Notification Notification'']]"
    by code_simp
  have f: "map n_category (user_notifications
        (fst (snd (create_notification store_busy 1 ((default_args ''w'')\<lparr>arg_level := ''warning''\<rparr>) 30 30 30))) 1)
      = [''system'']"
    by code_simp
  show ?thesis by (rule conjI [OF h1 conjI [OF h2 conjI [OF h3 conjI [OF t conjI [OF e f]]]]])
qed

section \<open>Identifiers\<close>


lemma broadcast_loop_counter:
  "notification_id_counter (fst (snd (broadcast_loop s us a clk))) = notification_id_counter s + int (length us)"
proof (induction us arbitrary: s clk)
  case Nil
  then show ?case by simp
next
  case (Cons u us)
  obtain t1 t2 t3 where c: "clk 0 = (t1, t2, t3)" by (cases "clk 0") auto
  show ?case by (simp add: c case_prod_beta Cons.IH create_counter)
qed










section \<open>Read marking\<close>

lemma mark_loop_found: "fst (mark_loop i now ns) = (i \<in> set (map n_id ns))"
  by (induction ns) (auto simp: case_prod_beta)

lemma mark_loop_absent: "i \<notin> set (map n_id ns) \<Longrightarrow> mark_loop i now ns = (False, ns)"
  by (induction ns) auto

lemma mark_loop_find:
  "find (\<lambda>n. n_id n = i) (snd (mark_loop i now ns)) =
     map_option (\<lambda>n. if n_read n then n else n\<lparr>n_read := True, n_read_at := Some now\<rparr>)
       (find (\<lambda>n. n_id n = i) ns)"
  by (induction ns) (auto simp: case_prod_beta)

lemma mark_loop_again:
  "snd (mark_loop i now' (snd (mark_loop i now ns))) = snd (mark_loop i now ns)"
  by (induction ns) (auto simp: case_prod_beta)

lemma mark_loop_update:
  "snd (mark_loop i now ns) = ns \<or>
   (\<exists>k < length ns. n_id (ns ! k) = i \<and>
      snd (mark_loop i now ns) = ns[k := (ns ! k)\<lparr>n_read := True, n_read_at := Some now\<rparr>])"
proof (induction ns)
  case Nil
  then show ?case by simp
next
  case (Cons n ns)
  show ?case
  proof (cases "n_id n = i")
    case True
    show ?thesis
    proof (cases "n_read n")
      case True
      with \<open>n_id n = i\<close> show ?thesis by simp
    next
      case False
      with \<open>n_id n = i\<close> have "0 < length (n # ns) \<and> n_id ((n # ns) ! 0) = i \<and>
        snd (mark_loop i now (n # ns)) = (n # ns)[0 := ((n # ns) ! 0)\<lparr>n_read := True, n_read_at := Some now\<rparr>]"
        by simp
      then show ?thesis by blast
    qed
  next
    case False
    from Cons.IH show ?thesis
    proof
      assume "snd (mark_loop i now ns) = ns"
      with False show ?thesis by (simp add: case_prod_beta)
    next
      assume "\<exists>k<length ns. n_id (ns ! k) = i \<and>
        snd (mark_loop i now ns) = ns[k := (ns ! k)\<lparr>n_read := True, n_read_at := Some now\<rparr>]"
      then obtain k where k: "k < length ns" "n_id (ns ! k) = i"
        "snd (mark_loop i now ns) = ns[k := (ns ! k)\<lparr>n_read := True, n_read_at := Some now\<rparr>]"
        by blast
      with False have "Suc k < length (n # ns) \<and> n_id ((n # ns) ! Suc k) = i \<and>
        snd (mark_loop i now (n # ns)) =
          (n # ns)[Suc k := ((n # ns) ! Suc k)\<lparr>n_read := True, n_read_at := Some now\<rparr>]"
        by (simp add: case_prod_beta)
      then show ?thesis by blast
    qed
  qed
qed

lemma store_notifications_triv:
  "notifications s u = Some ns \<Longrightarrow> s\<lparr>notifications := (notifications s)(u \<mapsto> ns)\<rparr> = s"
  by (simp add: map_upd_triv)

lemma mark_as_read_result: "fst (mark_as_read s u i now) = (i \<in> set (stored_ids s u))"
  by (simp add: mark_as_read_def stored_ids_def user_notifications_def case_prod_beta
      mark_loop_found split: option.splits)

lemma mark_as_read_absent:
  assumes "i \<notin> set (stored_ids s u)"
  shows "mark_as_read s u i now = (False, s)"
proof (cases "notifications s u")
  case None
  then show ?thesis by (simp add: mark_as_read_def)
next
  case (Some ns)
  with assms have "i \<notin> set (map n_id ns)"
    by (simp add: stored_ids_def user_notifications_def)
  then have "mark_loop i now ns = (False, ns)" by (rule mark_loop_absent)
  with Some show ?thesis by (simp add: mark_as_read_def store_notifications_triv)
qed

lemma mark_as_read_user:
  "user_notifications (snd (mark_as_read s u i now)) u = snd (mark_loop i now (user_notifications s u))"
  by (simp add: mark_as_read_def user_notifications_def case_prod_beta split: option.splits)

lemma mark_as_read_again:
  "snd (mark_as_read (snd (mark_as_read s u i now)) u i now') = snd (mark_as_read s u i now)"
  by (simp add: mark_as_read_def case_prod_beta mark_loop_again split: option.splits)


text \<open>
  C6: when a record with id \<open>i\<close> is in the collection of user \<open>u\<close>, \<^verbatim>\<open>mark_as_read\<close>
  returns true, whether the record was read or not. If the record was unread it is
  afterwards read with \<^verbatim>\<open>read_at\<close> the instant of the call; if it was read it is left
  as it was. A second call right after, at whatever instant, returns true again and
  leaves the store, so also \<^verbatim>\<open>read_at\<close>, as the first call left it. When no record
  of the user has the id, the call returns false and the store is unchanged.
\<close>

theorem mark_as_read_idempotent:
  "(i \<in> set (stored_ids s u) \<longrightarrow>
      fst (mark_as_read s u i now) = True \<and>
      (\<exists>n. find (\<lambda>n. n_id n = i) (user_notifications s u) = Some n \<and>
           find (\<lambda>n. n_id n = i) (user_notifications (snd (mark_as_read s u i now)) u) =
             Some (if n_read n then n else n\<lparr>n_read := True, n_read_at := Some now\<rparr>)) \<and>
      mark_as_read (snd (mark_as_read s u i now)) u i now' = (True, snd (mark_as_read s u i now))) \<and>
   (i \<notin> set (stored_ids s u) \<longrightarrow> mark_as_read s u i now = (False, s))"
proof (intro conjI impI)
  assume present: "i \<in> set (stored_ids s u)"
  show "fst (mark_as_read s u i now) = True"
    using present by (simp add: mark_as_read_result)
  from present obtain n where n: "find (\<lambda>n. n_id n = i) (user_notifications s u) = Some n"
    by (cases "find (\<lambda>n. n_id n = i) (user_notifications s u)")
       (auto simp: find_None_iff stored_ids_def)
  then show "\<exists>n. find (\<lambda>n. n_id n = i) (user_notifications s u) = Some n \<and>
           find (\<lambda>n. n_id n = i) (user_notifications (snd (mark_as_read s u i now)) u) =
             Some (if n_read n then n else n\<lparr>n_read := True, n_read_at := Some now\<rparr>)"
    by (simp add: mark_as_read_user mark_loop_find)
  have "i \<in> set (stored_ids (snd (mark_as_read s u i now)) u)"
    using present by (simp add: mark_as_read_ids)
  then have "fst (mark_as_read (snd (mark_as_read s u i now)) u i now') = True"
    by (simp add: mark_as_read_result)
  then show "mark_as_read (snd (mark_as_read s u i now)) u i now' = (True, snd (mark_as_read s u i now))"
    using mark_as_read_again [of s u i now now'] by (simp add: prod_eq_iff)
next
  assume "i \<notin> set (stored_ids s u)"
  then show "mark_as_read s u i now = (False, s)" by (rule mark_as_read_absent)
qed


theorem mark_as_read_idempotent_witness:
  "1 \<in> set (stored_ids store_two 1)
   \<and> (fst (mark_as_read store_two 1 1 50) = True \<and>
      (\<exists>n. find (\<lambda>n. n_id n = 1) (user_notifications store_two 1) = Some n \<and>
           find (\<lambda>n. n_id n = 1) (user_notifications (snd (mark_as_read store_two 1 1 50)) 1) =
             Some (if n_read n then n else n\<lparr>n_read := True, n_read_at := Some 50\<rparr>)) \<and>
      mark_as_read (snd (mark_as_read store_two 1 1 50)) 1 1 60 = (True, snd (mark_as_read store_two 1 1 50)))
   \<and> map n_read_at (user_notifications (snd (mark_as_read store_two 1 1 50)) 1) = [Some 50]
   \<and> 2 \<notin> set (stored_ids store_two 1)
   \<and> mark_as_read store_two 1 2 50 = (False, store_two)"
proof -
  have h: "1 \<in> set (stored_ids store_two 1)" by code_simp
  have g: "2 \<notin> set (stored_ids store_two 1)" by code_simp
  have e: "map n_read_at (user_notifications (snd (mark_as_read store_two 1 1 50)) 1) = [Some 50]"
    by code_simp
  note t1 = mark_as_read_idempotent [of 1 store_two 1 50 60, THEN conjunct1, rule_format, OF h]
  note t2 = mark_as_read_idempotent [of 2 store_two 1 50 60, THEN conjunct2, rule_format, OF g]
  show ?thesis by (rule conjI [OF h conjI [OF t1 conjI [OF e conjI [OF g t2]]]])
qed

section \<open>What read marking leaves alone\<close>

lemma mark_as_read_listeners: "listeners (snd (mark_as_read s u i now)) = listeners s"
  by (simp add: mark_as_read_def case_prod_beta split: option.splits)

lemma mark_as_read_update:
  "snd (mark_as_read s u i now) = s \<or>
   (\<exists>k < length (user_notifications s u). n_id (user_notifications s u ! k) = i \<and>
      notifications (snd (mark_as_read s u i now)) u =
        Some ((user_notifications s u)[k := (user_notifications s u ! k)\<lparr>n_read := True, n_read_at := Some now\<rparr>]))"
proof (cases "notifications s u")
  case None
  then show ?thesis by (simp add: mark_as_read_def)
next
  case (Some ns)
  then have un: "user_notifications s u = ns" by (simp add: user_notifications_def)
  have st: "snd (mark_as_read s u i now) = s\<lparr>notifications := (notifications s)(u \<mapsto> snd (mark_loop i now ns))\<rparr>"
    using Some by (simp add: mark_as_read_def case_prod_beta)
  from mark_loop_update [of i now ns] show ?thesis
  proof
    assume "snd (mark_loop i now ns) = ns"
    with st Some have "snd (mark_as_read s u i now) = s" by (simp add: store_notifications_triv)
    then show ?thesis by simp
  next
    assume "\<exists>k<length ns. n_id (ns ! k) = i \<and>
      snd (mark_loop i now ns) = ns[k := (ns ! k)\<lparr>n_read := True, n_read_at := Some now\<rparr>]"
    then show ?thesis unfolding un st by simp
  qed
qed

text \<open>
  C10: \<^verbatim>\<open>mark_as_read\<close> leaves the listener registrations, the id counter and every
  other user's collection as they were. The collection of the user is either unchanged
  too, or it is the old list with one record of id \<open>i\<close> replaced by the same record
  with \<^verbatim>\<open>read\<close> true and \<^verbatim>\<open>read_at\<close> the instant of the call. So the list keeps
  its length, a record with another id is unchanged, and in every record the fields
  other than \<^verbatim>\<open>read\<close> and \<^verbatim>\<open>read_at\<close> are unchanged.
\<close>

theorem mark_as_read_frame_fields:
  "listeners (snd (mark_as_read s u i now)) = listeners s \<and>
   notification_id_counter (snd (mark_as_read s u i now)) = notification_id_counter s \<and>
   (\<forall>v. v \<noteq> u \<longrightarrow> notifications (snd (mark_as_read s u i now)) v = notifications s v) \<and>
   (snd (mark_as_read s u i now) = s \<or>
    (\<exists>k < length (user_notifications s u). n_id (user_notifications s u ! k) = i \<and>
       notifications (snd (mark_as_read s u i now)) u =
         Some ((user_notifications s u)[k := (user_notifications s u ! k)\<lparr>n_read := True, n_read_at := Some now\<rparr>]))) \<and>
   length (user_notifications (snd (mark_as_read s u i now)) u) = length (user_notifications s u) \<and>
   (\<forall>k < length (user_notifications s u).
      (n_id (user_notifications s u ! k) \<noteq> i \<longrightarrow>
         user_notifications (snd (mark_as_read s u i now)) u ! k = user_notifications s u ! k) \<and>
      (user_notifications (snd (mark_as_read s u i now)) u ! k)
         \<lparr>n_read := n_read (user_notifications s u ! k), n_read_at := n_read_at (user_notifications s u ! k)\<rparr>
        = user_notifications s u ! k)"
proof -
  let ?s' = "snd (mark_as_read s u i now)"
  let ?ns = "user_notifications s u"
  have a: "listeners ?s' = listeners s" by (rule mark_as_read_listeners)
  have b: "notification_id_counter ?s' = notification_id_counter s" by (rule mark_as_read_counter)
  have c: "\<forall>v. v \<noteq> u \<longrightarrow> notifications ?s' v = notifications s v"
    by (simp add: mark_as_read_frame)
  have d: "?s' = s \<or> (\<exists>k < length ?ns. n_id (?ns ! k) = i \<and>
       notifications ?s' u = Some (?ns[k := (?ns ! k)\<lparr>n_read := True, n_read_at := Some now\<rparr>]))"
    by (rule mark_as_read_update)
  have e: "length (user_notifications ?s' u) = length ?ns"
    using d by (auto simp: user_notifications_def)
  have f: "\<forall>k < length ?ns.
      (n_id (?ns ! k) \<noteq> i \<longrightarrow> user_notifications ?s' u ! k = ?ns ! k) \<and>
      (user_notifications ?s' u ! k)\<lparr>n_read := n_read (?ns ! k), n_read_at := n_read_at (?ns ! k)\<rparr> = ?ns ! k"
  proof (intro allI impI)
    fix k assume k: "k < length ?ns"
    from d show "(n_id (?ns ! k) \<noteq> i \<longrightarrow> user_notifications ?s' u ! k = ?ns ! k) \<and>
      (user_notifications ?s' u ! k)\<lparr>n_read := n_read (?ns ! k), n_read_at := n_read_at (?ns ! k)\<rparr> = ?ns ! k"
    proof
      assume "?s' = s"
      then show ?thesis by simp
    next
      assume "\<exists>j < length ?ns. n_id (?ns ! j) = i \<and>
        notifications ?s' u = Some (?ns[j := (?ns ! j)\<lparr>n_read := True, n_read_at := Some now\<rparr>])"
      then obtain j where j: "j < length ?ns" "n_id (?ns ! j) = i"
        "notifications ?s' u = Some (?ns[j := (?ns ! j)\<lparr>n_read := True, n_read_at := Some now\<rparr>])"
        by blast
      have un: "user_notifications ?s' u = ?ns[j := (?ns ! j)\<lparr>n_read := True, n_read_at := Some now\<rparr>]"
        unfolding user_notifications_def [of ?s'] j(3) by simp
      show ?thesis
      proof (cases "k = j")
        case True
        with j k show ?thesis unfolding un by simp
      next
        case False
        with j k show ?thesis unfolding un by simp
      qed
    qed
  qed
  from a b c d e f show ?thesis by blast
qed


theorem mark_as_read_frame_fields_witness:
  "listeners (snd (mark_as_read store_two 1 1 50)) = listeners store_two
   \<and> notification_id_counter (snd (mark_as_read store_two 1 1 50)) = notification_id_counter store_two
   \<and> notifications (snd (mark_as_read store_two 1 1 50)) 2 = notifications store_two 2
   \<and> length (user_notifications (snd (mark_as_read store_two 1 1 50)) 1) = length (user_notifications store_two 1)
   \<and> map n_read (user_notifications store_two 1) = [False]
   \<and> map n_read (user_notifications (snd (mark_as_read store_two 1 1 50)) 1) = [True]
   \<and> map n_message (user_notifications (snd (mark_as_read store_two 1 1 50)) 1) = [''first'']"
proof -
  note t = mark_as_read_frame_fields [of store_two 1 1 50]
  from t have a: "listeners (snd (mark_as_read store_two 1 1 50)) = listeners store_two"
    by (rule conjunct1)
  from t have b: "notification_id_counter (snd (mark_as_read store_two 1 1 50)) = notification_id_counter store_two"
    by (rule conjunct2 [THEN conjunct1])
  from t have "\<forall>v. v \<noteq> 1 \<longrightarrow> notifications (snd (mark_as_read store_two 1 1 50)) v = notifications store_two v"
    by (rule conjunct2 [THEN conjunct2, THEN conjunct1])
  then have c: "notifications (snd (mark_as_read store_two 1 1 50)) 2 = notifications store_two 2"
    by simp
  from t have d: "length (user_notifications (snd (mark_as_read store_two 1 1 50)) 1) = length (user_notifications store_two 1)"
    by (rule conjunct2 [THEN conjunct2, THEN conjunct2, THEN conjunct2, THEN conjunct1])
  have e: "map n_read (user_notifications store_two 1) = [False]" by code_simp
  have f: "map n_read (user_notifications (snd (mark_as_read store_two 1 1 50)) 1) = [True]" by code_simp
  have g: "map n_message (user_notifications (snd (mark_as_read store_two 1 1 50)) 1) = [''first'']" by code_simp
  show ?thesis
    by (rule conjI [OF a conjI [OF b conjI [OF c conjI [OF d conjI [OF e conjI [OF f g]]]]]])
qed

text \<open>
  C7: in a store the service reaches from its initial one, an id stored for user \<open>u2\<close>
  is stored for no other user, so \<^verbatim>\<open>mark_as_read\<close> for another user \<open>u1\<close> with that
  id returns false and leaves the store, and with it the collection of \<open>u2\<close>,
  unchanged. And every call leaves the collection of every user it is not invoked for
  unchanged, in any store.
\<close>

theorem mark_as_read_other_user:
  assumes "s = run cs init_store" and "u1 \<noteq> u2" and "i \<in> set (stored_ids s u2)"
  shows "mark_as_read s u1 i now = (False, s) \<and>
         notifications (snd (mark_as_read s u1 i now)) u2 = notifications s u2 \<and>
         (\<forall>c s' v. v \<notin> command_users c \<longrightarrow> notifications (exec c s') v = notifications s' v)"
proof -
  have "store_inv s" unfolding assms(1) by (rule store_inv_run [OF store_inv_init])
  from store_inv_disjoint [OF this _ assms(3), of u1] assms(2)
  have "i \<notin> set (stored_ids s u1)" by simp
  then have "mark_as_read s u1 i now = (False, s)" by (rule mark_as_read_absent)
  then show ?thesis by (simp add: exec_frame)
qed

theorem mark_as_read_other_user_witness:
  "store_two = run [Create 1 (default_args ''first'') 10 10 10,
                    Create 2 (default_args ''second'') 20 20 20] init_store
   \<and> (1::int) \<noteq> 2 \<and> 2 \<in> set (stored_ids store_two 2)
   \<and> mark_as_read store_two 1 2 50 = (False, store_two)
   \<and> notifications (snd (mark_as_read store_two 1 2 50)) 2 = notifications store_two 2
   \<and> notifications (exec (Create 1 (default_args ''third'') 30 30 30) store_two) 2 = notifications store_two 2
   \<and> map n_read (user_notifications store_two 2) = [False]
   \<and> map n_read (user_notifications (snd (mark_as_read store_two 2 2 50)) 2) = [True]"
proof -
  have h1: "store_two = run [Create 1 (default_args ''first'') 10 10 10,
                    Create 2 (default_args ''second'') 20 20 20] init_store"
    by (rule store_two_def)
  have h2: "(1::int) \<noteq> 2" by simp
  have h3: "2 \<in> set (stored_ids store_two 2)" by code_simp
  have e: "map n_read (user_notifications store_two 2) = [False]" by code_simp
  have f: "map n_read (user_notifications (snd (mark_as_read store_two 2 2 50)) 2) = [True]" by code_simp
  note t = mark_as_read_other_user [OF h1 h2 h3, of 50]
  from t have a: "mark_as_read store_two 1 2 50 = (False, store_two)"
    by (rule conjunct1)
  from t have b: "notifications (snd (mark_as_read store_two 1 2 50)) 2 = notifications store_two 2"
    by (rule conjunct2 [THEN conjunct1])
  from t have "\<forall>c s' v. v \<notin> command_users c \<longrightarrow> notifications (exec c s') v = notifications s' v"
    by (rule conjunct2 [THEN conjunct2])
  then have "2 \<notin> command_users (Create 1 (default_args ''third'') 30 30 30) \<longrightarrow>
      notifications (exec (Create 1 (default_args ''third'') 30 30 30) store_two) 2 = notifications store_two 2"
    by blast
  then have c: "notifications (exec (Create 1 (default_args ''third'') 30 30 30) store_two) 2 = notifications store_two 2"
    by simp
  show ?thesis
    by (rule conjI [OF h1 conjI [OF h2 conjI [OF h3 conjI [OF a conjI [OF b conjI [OF c conjI [OF e f]]]]]]])
qed

section \<open>Listener fan-out\<close>

text \<open>
  C8 says that \<^verbatim>\<open>create_notification\<close> catches the failure of any listener, so that
  the other listeners are still invoked and the creation returns. The code does catch
  a failure of awaiting: with the two coroutine functions of \<open>store_listening\<close>, of
  which the first raises when awaited, the creation returns the record and both are
  awaited with it. It does not catch a failure of the call: with the plain function of
  \<open>store_raising\<close>, which raises when it is called, the creation ends with that
  exception after the record is stored, and nothing is awaited, so the working
  listener registered after it never gets the record.
\<close>

theorem create_with_listener_raising_on_call:
  "listeners store_raising 1 = Some [raising_listener, working_listener]
   \<and> cb_body raising_listener (new_record 1 1 (default_args ''x'') 10 10) = Raises ''RuntimeError''
   \<and> prunable store_raising 1
   \<and> fst (create_notification store_raising 1 (default_args ''x'') 10 10 10) = Inl (Raised ''RuntimeError'')
   \<and> snd (snd (create_notification store_raising 1 (default_args ''x'') 10 10 10)) = []
   \<and> user_notifications (fst (snd (create_notification store_raising 1 (default_args ''x'') 10 10 10))) 1
        = [new_record 1 1 (default_args ''x'') 10 10]
   \<and> listeners store_listening 1 = Some [failing_listener, working_listener]
   \<and> fst (create_notification store_listening 1 (default_args ''x'') 10 10 10)
        = Inr (new_record 1 1 (default_args ''x'') 10 10)
   \<and> snd (snd (create_notification store_listening 1 (default_args ''x'') 10 10 10))
        = [(0, new_record 1 1 (default_args ''x'') 10 10, Some ''ConnectionError''),
           (1, new_record 1 1 (default_args ''x'') 10 10, None)]"
proof -
  have ir: "notification_id_counter store_raising = 1"
    by (simp add: store_raising_def add_listener_def Let_def init_store_def)
  have ur: "user_notifications store_raising 1 = []"
    by (simp add: store_raising_def add_listener_def Let_def init_store_def user_notifications_def)
  have il: "notification_id_counter store_listening = 1"
    by (simp add: store_listening_def add_listener_def Let_def init_store_def)
  have a: "listeners store_raising 1 = Some [raising_listener, working_listener]"
    by (simp add: store_raising_def add_listener_def Let_def init_store_def)
  have b: "cb_body raising_listener (new_record 1 1 (default_args ''x'') 10 10) = Raises ''RuntimeError''"
    by (simp add: raising_listener_def)
  have c: "prunable store_raising 1" by (simp add: prunable_def ur)
  have nr: "notify_listeners store_raising 1 (new_record 1 1 (default_args ''x'') 10 10)
      = Inl (Raised ''RuntimeError'')"
    by (simp add: notify_listeners_def a b)
  have d: "fst (create_notification store_raising 1 (default_args ''x'') 10 10 10) = Inl (Raised ''RuntimeError'')"
    by (simp add: create_result c ir nr)
  have e: "snd (snd (create_notification store_raising 1 (default_args ''x'') 10 10 10)) = []"
    by (simp add: create_deliveries c ir nr)
  have f: "user_notifications (fst (snd (create_notification store_raising 1 (default_args ''x'') 10 10 10))) 1
        = [new_record 1 1 (default_args ''x'') 10 10]"
    using ur by (simp add: create_store c ir user_notifications_def)
  have g: "listeners store_listening 1 = Some [failing_listener, working_listener]"
    by (simp add: store_listening_def add_listener_def Let_def init_store_def)
  have pl: "prunable store_listening 1"
    by (simp add: prunable_def store_listening_def add_listener_def Let_def init_store_def
        user_notifications_def)
  have nl: "notify_listeners store_listening 1 (new_record 1 1 (default_args ''x'') 10 10)
      = Inr [(0, new_record 1 1 (default_args ''x'') 10 10, Some ''ConnectionError''),
             (1, new_record 1 1 (default_args ''x'') 10 10, None)]"
    by (simp add: notify_listeners_def g failing_listener_def working_listener_def)
  have h: "fst (create_notification store_listening 1 (default_args ''x'') 10 10 10)
        = Inr (new_record 1 1 (default_args ''x'') 10 10)"
    by (simp add: create_result pl il nl)
  have k: "snd (snd (create_notification store_listening 1 (default_args ''x'') 10 10 10))
        = [(0, new_record 1 1 (default_args ''x'') 10 10, Some ''ConnectionError''),
           (1, new_record 1 1 (default_args ''x'') 10 10, None)]"
    by (simp add: create_deliveries pl il nl)
  show ?thesis
    by (rule conjI [OF a conjI [OF b conjI [OF c conjI [OF d conjI [OF e conjI [OF f
          conjI [OF g conjI [OF h k]]]]]]]])
qed

section \<open>Broadcast\<close>

lemma create_user_notifications:
  "user_notifications (fst (snd (create_notification s u a t1 t2 t3))) v =
     (if v = u \<and> prunable s u
      then filter (unexpired t3) (user_notifications s u) @ [new_record (notification_id_counter s) u a t1 t2]
      else user_notifications s v)"
  by (rule create_cases [of s u a t1 t2 t3]) (simp_all add: user_notifications_def)

lemma create_keeps:
  assumes "m \<in> set (user_notifications s v)" and "n_expires_at m = None"
  shows "m \<in> set (user_notifications (fst (snd (create_notification s u a t1 t2 t3))) v)"
  using assms by (auto simp: create_user_notifications unexpired_def)

lemma create_prunable:
  assumes "arg_expires_at a = None"
  shows "prunable (fst (snd (create_notification s u a t1 t2 t3))) v = prunable s v"
proof (cases "v = u \<and> prunable s u")
  case True
  then have "list_all tz_aware (user_notifications s u)" by (simp add: prunable_def)
  then have "list_all tz_aware (filter (unexpired t3) (user_notifications s u))"
    by (simp add: list_all_iff)
  moreover have "tz_aware (new_record (notification_id_counter s) u a t1 t2)"
    using assms by (simp add: tz_aware_def new_record_def)
  ultimately show ?thesis using True
    by (simp add: prunable_def [of "fst (snd (create_notification s u a t1 t2 t3))"] create_user_notifications)
next
  case False
  then show ?thesis
    by (simp only: prunable_def create_user_notifications if_False)
qed

lemma broadcast_loop_keeps:
  assumes "m \<in> set (user_notifications s v)" and "n_expires_at m = None"
  shows "m \<in> set (user_notifications (fst (snd (broadcast_loop s us a clk))) v)"
  using assms
proof (induction us arbitrary: s clk)
  case Nil
  then show ?case by simp
next
  case (Cons u us)
  obtain t1 t2 t3 where c: "clk 0 = (t1, t2, t3)" by (cases "clk 0") auto
  from Cons.prems
  have "m \<in> set (user_notifications (fst (snd (create_notification s u (a\<lparr>arg_expires_at := None\<rparr>) t1 t2 t3))) v)"
    by (rule create_keeps)
  from Cons.IH [OF this Cons.prems(2)] show ?case by (simp add: c case_prod_beta)
qed

lemma broadcast_loop_length: "length (fst (broadcast_loop s us a clk)) = length us"
proof (induction us arbitrary: s clk)
  case Nil
  then show ?case by simp
next
  case (Cons u us)
  obtain t1 t2 t3 where c: "clk 0 = (t1, t2, t3)" by (cases "clk 0") auto
  show ?case by (simp add: c case_prod_beta Cons.IH)
qed

lemma create_returns_with_coroutines:
  assumes "prunable s u"
    and "\<forall>cbs. listeners s u = Some cbs \<longrightarrow>
           (\<forall>cb \<in> set cbs. \<exists>r. cb_body cb (new_record (notification_id_counter s) u a t1 t2)
              = Returns (Coroutine r))"
  shows "\<exists>ds. notify_listeners s u (new_record (notification_id_counter s) u a t1 t2) = Inr ds"
proof (cases "listeners s u")
  case None
  then show ?thesis by (simp add: notify_listeners_none)
next
  case (Some cbs)
  with assms(2)
  have "\<forall>cb \<in> set cbs. \<exists>r. cb_body cb (new_record (notification_id_counter s) u a t1 t2)
      = Returns (Coroutine r)" by simp
  from notify_listeners_awaitable [OF Some this] show ?thesis by simp
qed

lemma broadcast_loop_results:
  assumes "k < length us"
  shows "(prunable s (us ! k) \<longrightarrow>
         (\<exists>n. n_id n = notification_id_counter s + int k
            \<and> n_user_id n = us ! k \<and> n_message n = arg_message a
            \<and> n \<in> set (user_notifications (fst (snd (broadcast_loop s us a clk))) (us ! k))
            \<and> fst (broadcast_loop s us a clk) ! k =
                 (case notify_listeners s (us ! k) n of Inl e \<Rightarrow> Inl e | Inr ds \<Rightarrow> Inr n)
            \<and> ((\<forall>cbs. listeners s (us ! k) = Some cbs \<longrightarrow>
                    (\<forall>cb \<in> set cbs. \<exists>r. cb_body cb n = Returns (Coroutine r)))
                 \<longrightarrow> fst (broadcast_loop s us a clk) ! k = Inr n))) \<and>
      (\<not> prunable s (us ! k) \<longrightarrow> fst (broadcast_loop s us a clk) ! k = Inl TypeError) \<and>
      (\<forall>n. fst (broadcast_loop s us a clk) ! k = Inr n \<longrightarrow>
         n \<in> set (user_notifications (fst (snd (broadcast_loop s us a clk))) (us ! k)))"
  using assms
proof (induction us arbitrary: s clk k)
  case Nil
  then show ?case by simp
next
  case (Cons u us)
  obtain t1 t2 t3 where c: "clk 0 = (t1, t2, t3)" by (cases "clk 0") auto
  define a' where "a' = a\<lparr>arg_expires_at := None\<rparr>"
  define s1 where "s1 = fst (snd (create_notification s u a' t1 t2 t3))"
  define clk' where "clk' = (\<lambda>i. clk (Suc i))"
  have rs: "fst (broadcast_loop s (u # us) a clk) =
      fst (create_notification s u a' t1 t2 t3) # fst (broadcast_loop s1 us a clk')"
    by (simp add: c case_prod_beta a'_def s1_def clk'_def)
  have st: "fst (snd (broadcast_loop s (u # us) a clk)) = fst (snd (broadcast_loop s1 us a clk'))"
    by (simp add: c case_prod_beta a'_def s1_def clk'_def)
  have a'e: "arg_expires_at a' = None" by (simp add: a'_def)
  show ?case
  proof (cases k)
    case 0
    show ?thesis
    proof (cases "prunable s u")
      case True
      define n where "n = new_record (notification_id_counter s) u a' t1 t2"
      have r: "fst (create_notification s u a' t1 t2 t3) =
          (case notify_listeners s u n of Inl e \<Rightarrow> Inl e | Inr ds \<Rightarrow> Inr n)"
        unfolding n_def using True by (simp add: create_result)
      have "n \<in> set (user_notifications s1 u)"
        using True unfolding s1_def by (simp add: create_user_notifications n_def)
      moreover have "n_expires_at n = None" by (simp add: n_def new_record_def a'_def)
      ultimately have stored: "n \<in> set (user_notifications (fst (snd (broadcast_loop s1 us a clk'))) u)"
        by (rule broadcast_loop_keeps)
      have fields: "n_id n = notification_id_counter s" "n_user_id n = u" "n_message n = arg_message a"
        by (simp_all add: n_def new_record_def a'_def)
      have ret: "fst (create_notification s u a' t1 t2 t3) = Inr n"
        if "\<forall>cbs. listeners s u = Some cbs \<longrightarrow> (\<forall>cb \<in> set cbs. \<exists>r. cb_body cb n = Returns (Coroutine r))"
        using create_returns_with_coroutines [OF True, of a' t1 t2] that unfolding r n_def by auto
      have only: "m = n" if "fst (create_notification s u a' t1 t2 t3) = Inr m" for m
        using that unfolding r by (simp split: sum.splits)
      have "\<exists>m. n_id m = notification_id_counter s + int 0
            \<and> n_user_id m = u \<and> n_message m = arg_message a
            \<and> m \<in> set (user_notifications (fst (snd (broadcast_loop s1 us a clk'))) u)
            \<and> fst (create_notification s u a' t1 t2 t3) =
                 (case notify_listeners s u m of Inl e \<Rightarrow> Inl e | Inr ds \<Rightarrow> Inr m)
            \<and> ((\<forall>cbs. listeners s u = Some cbs \<longrightarrow>
                    (\<forall>cb \<in> set cbs. \<exists>r. cb_body cb m = Returns (Coroutine r)))
                 \<longrightarrow> fst (create_notification s u a' t1 t2 t3) = Inr m)"
        using fields stored r ret by (intro exI [of _ n]) simp
      moreover have "\<forall>m. fst (create_notification s u a' t1 t2 t3) = Inr m \<longrightarrow>
          m \<in> set (user_notifications (fst (snd (broadcast_loop s1 us a clk'))) u)"
        using only stored by blast
      ultimately show ?thesis using True 0 unfolding rs st by simp
    next
      case False
      then have "fst (create_notification s u a' t1 t2 t3) = Inl TypeError"
        by (simp add: create_failure)
      with False 0 show ?thesis unfolding rs by simp
    qed
  next
    case (Suc j)
    with Cons.prems have j: "j < length us" by simp
    have p: "prunable s1 (us ! j) = prunable s (us ! j)"
      unfolding s1_def by (rule create_prunable [OF a'e])
    have cnt: "notification_id_counter s1 + int j = notification_id_counter s + int (Suc j)"
      unfolding s1_def by (simp add: create_counter)
    have ls: "listeners s1 = listeners s" unfolding s1_def by (rule create_listeners)
    have nl: "notify_listeners s1 v m = notify_listeners s v m" for v m
      by (rule notify_listeners_cong [OF ls])
    from Cons.IH [OF j, of s1 clk'] show ?thesis
      unfolding rs st Suc p cnt ls nl by simp
  qed
qed

text \<open>
  C3: \<^verbatim>\<open>broadcast_notification\<close> runs one creation for each element of \<^verbatim>\<open>user_ids\<close>:
  there is one result for each, and the counter advances by their number. What the
  creation for the \<open>k\<close>-th user id does depends on that user alone, whatever happened
  to the creations for the other user ids: it raises without storing anything exactly
  when that user's own collection cannot be pruned; otherwise its record (for that
  user, with the message of the broadcast) is in the user's collection in the store
  the broadcast leaves, and the creation returns it unless the fan-out to that user's
  own listeners raises, which it does not when they all return coroutines. So every
  creation that did not fail has left its record in its user's collection, whether the
  broadcast returns or raises the first exception of the results.
\<close>

theorem broadcast_isolates_failures:
  "length (fst (broadcast_loop s us a clk)) = length us \<and>
   broadcast_notification s us a clk =
     (first_error (fst (broadcast_loop s us a clk)), fst (snd (broadcast_loop s us a clk))) \<and>
   notification_id_counter (snd (broadcast_notification s us a clk)) =
     notification_id_counter s + int (length us) \<and>
   (\<forall>k < length us.
      (prunable s (us ! k) \<longrightarrow>
         (\<exists>n. n_id n = notification_id_counter s + int k
            \<and> n_user_id n = us ! k \<and> n_message n = arg_message a
            \<and> n \<in> set (user_notifications (snd (broadcast_notification s us a clk)) (us ! k))
            \<and> fst (broadcast_loop s us a clk) ! k =
                 (case notify_listeners s (us ! k) n of Inl e \<Rightarrow> Inl e | Inr ds \<Rightarrow> Inr n)
            \<and> ((\<forall>cbs. listeners s (us ! k) = Some cbs \<longrightarrow>
                    (\<forall>cb \<in> set cbs. \<exists>r. cb_body cb n = Returns (Coroutine r)))
                 \<longrightarrow> fst (broadcast_loop s us a clk) ! k = Inr n))) \<and>
      (\<not> prunable s (us ! k) \<longrightarrow> fst (broadcast_loop s us a clk) ! k = Inl TypeError) \<and>
      (\<forall>n. fst (broadcast_loop s us a clk) ! k = Inr n \<longrightarrow>
         n \<in> set (user_notifications (snd (broadcast_notification s us a clk)) (us ! k))))"
proof -
  have st: "snd (broadcast_notification s us a clk) = fst (snd (broadcast_loop s us a clk))"
    by (simp add: broadcast_notification_def case_prod_beta)
  have "broadcast_notification s us a clk =
     (first_error (fst (broadcast_loop s us a clk)), fst (snd (broadcast_loop s us a clk)))"
    by (simp add: broadcast_notification_def case_prod_beta)
  moreover have "notification_id_counter (snd (broadcast_notification s us a clk)) =
     notification_id_counter s + int (length us)"
    unfolding st by (rule broadcast_loop_counter)
  moreover have "\<forall>k < length us.
      (prunable s (us ! k) \<longrightarrow>
         (\<exists>n. n_id n = notification_id_counter s + int k
            \<and> n_user_id n = us ! k \<and> n_message n = arg_message a
            \<and> n \<in> set (user_notifications (snd (broadcast_notification s us a clk)) (us ! k))
            \<and> fst (broadcast_loop s us a clk) ! k =
                 (case notify_listeners s (us ! k) n of Inl e \<Rightarrow> Inl e | Inr ds \<Rightarrow> Inr n)
            \<and> ((\<forall>cbs. listeners s (us ! k) = Some cbs \<longrightarrow>
                    (\<forall>cb \<in> set cbs. \<exists>r. cb_body cb n = Returns (Coroutine r)))
                 \<longrightarrow> fst (broadcast_loop s us a clk) ! k = Inr n))) \<and>
      (\<not> prunable s (us ! k) \<longrightarrow> fst (broadcast_loop s us a clk) ! k = Inl TypeError) \<and>
      (\<forall>n. fst (broadcast_loop s us a clk) ! k = Inr n \<longrightarrow>
         n \<in> set (user_notifications (snd (broadcast_notification s us a clk)) (us ! k)))"
    unfolding st using broadcast_loop_results [of _ us s a clk] by blast
  ultimately show ?thesis using broadcast_loop_length [of s us a clk] by blast
qed

theorem broadcast_isolates_failures_witness:
  "\<not> prunable store_troubled 1 \<and> prunable store_troubled 2 \<and> prunable store_troubled 3
   \<and> fst (broadcast_loop store_troubled [1, 2, 3] (default_args ''all'') (\<lambda>i. (30, 30, 30))) ! 0 = Inl TypeError
   \<and> (\<exists>n. n_id n = notification_id_counter store_troubled + int 1
          \<and> n_user_id n = [1, 2, 3] ! 1 \<and> n_message n = arg_message (default_args ''all'')
          \<and> n \<in> set (user_notifications (snd (broadcast_notification store_troubled [1, 2, 3] (default_args ''all'') (\<lambda>i. (30, 30, 30)))) ([1, 2, 3] ! 1))
          \<and> fst (broadcast_loop store_troubled [1, 2, 3] (default_args ''all'') (\<lambda>i. (30, 30, 30))) ! 1 =
               (case notify_listeners store_troubled ([1, 2, 3] ! 1) n of Inl e \<Rightarrow> Inl e | Inr ds \<Rightarrow> Inr n)
          \<and> ((\<forall>cbs. listeners store_troubled ([1, 2, 3] ! 1) = Some cbs \<longrightarrow>
                  (\<forall>cb \<in> set cbs. \<exists>r. cb_body cb n = Returns (Coroutine r)))
               \<longrightarrow> fst (broadcast_loop store_troubled [1, 2, 3] (default_args ''all'') (\<lambda>i. (30, 30, 30))) ! 1 = Inr n))
   \<and> (\<exists>n. n_id n = notification_id_counter store_troubled + int 2
          \<and> n_user_id n = [1, 2, 3] ! 2 \<and> n_message n = arg_message (default_args ''all'')
          \<and> n \<in> set (user_notifications (snd (broadcast_notification store_troubled [1, 2, 3] (default_args ''all'') (\<lambda>i. (30, 30, 30)))) ([1, 2, 3] ! 2))
          \<and> fst (broadcast_loop store_troubled [1, 2, 3] (default_args ''all'') (\<lambda>i. (30, 30, 30))) ! 2 =
               (case notify_listeners store_troubled ([1, 2, 3] ! 2) n of Inl e \<Rightarrow> Inl e | Inr ds \<Rightarrow> Inr n)
          \<and> ((\<forall>cbs. listeners store_troubled ([1, 2, 3] ! 2) = Some cbs \<longrightarrow>
                  (\<forall>cb \<in> set cbs. \<exists>r. cb_body cb n = Returns (Coroutine r)))
               \<longrightarrow> fst (broadcast_loop store_troubled [1, 2, 3] (default_args ''all'') (\<lambda>i. (30, 30, 30))) ! 2 = Inr n))
   \<and> map (case_sum Some (\<lambda>n. None)) (fst (broadcast_loop store_troubled [1, 2, 3] (default_args ''all'') (\<lambda>i. (30, 30, 30))))
        = [Some TypeError, Some (Raised ''RuntimeError''), None]
   \<and> fst (broadcast_notification store_troubled [1, 2, 3] (default_args ''all'') (\<lambda>i. (30, 30, 30))) = Some TypeError
   \<and> result_ids (fst (broadcast_loop store_troubled [1, 2, 3] (default_args ''all'') (\<lambda>i. (30, 30, 30)))) = [4]
   \<and> map n_message (user_notifications (snd (broadcast_notification store_troubled [1, 2, 3] (default_args ''all'') (\<lambda>i. (30, 30, 30)))) 1) = [''old'']
   \<and> map n_message (user_notifications (snd (broadcast_notification store_troubled [1, 2, 3] (default_args ''all'') (\<lambda>i. (30, 30, 30)))) 2) = [''all'']
   \<and> map n_message (user_notifications (snd (broadcast_notification store_troubled [1, 2, 3] (default_args ''all'') (\<lambda>i. (30, 30, 30)))) 3) = [''all'']"
proof -
  note t = broadcast_isolates_failures [of store_troubled "[1, 2, 3]" "default_args ''all''" "(\<lambda>i. (30, 30, 30))",
      THEN conjunct2, THEN conjunct2, THEN conjunct2]
  have h1: "\<not> prunable store_troubled 1" by code_simp
  have h2: "prunable store_troubled 2" by code_simp
  have h3: "prunable store_troubled 3" by code_simp
  have p1: "\<not> prunable store_troubled ([1, 2, 3] ! 0)" using h1 by simp
  have p2: "prunable store_troubled ([1, 2, 3] ! 1)" using h2 by simp
  have p3: "prunable store_troubled ([1, 2, 3] ! 2)" using h3 by simp
  have k0: "(0::nat) < length [1, 2, 3]" by simp
  have k1: "(1::nat) < length [1, 2, 3]" by simp
  have k2: "(2::nat) < length [1, 2, 3]" by simp
  note a = t [rule_format, OF k0, THEN conjunct2, THEN conjunct1, rule_format, OF p1]
  note b = t [rule_format, OF k1, THEN conjunct1, rule_format, OF p2]
  note c = t [rule_format, OF k2, THEN conjunct1, rule_format, OF p3]
  have d: "map (case_sum Some (\<lambda>n. None)) (fst (broadcast_loop store_troubled [1, 2, 3] (default_args ''all'') (\<lambda>i. (30, 30, 30))))
        = [Some TypeError, Some (Raised ''RuntimeError''), None]" by code_simp
  have e: "fst (broadcast_notification store_troubled [1, 2, 3] (default_args ''all'') (\<lambda>i. (30, 30, 30))) = Some TypeError" by code_simp
  have f: "result_ids (fst (broadcast_loop store_troubled [1, 2, 3] (default_args ''all'') (\<lambda>i. (30, 30, 30)))) = [4]" by code_simp
  have g1: "map n_message (user_notifications (snd (broadcast_notification store_troubled [1, 2, 3] (default_args ''all'') (\<lambda>i. (30, 30, 30)))) 1) = [''old'']"
    by code_simp
  have g2: "map n_message (user_notifications (snd (broadcast_notification store_troubled [1, 2, 3] (default_args ''all'') (\<lambda>i. (30, 30, 30)))) 2) = [''all'']"
    by code_simp
  have g3: "map n_message (user_notifications (snd (broadcast_notification store_troubled [1, 2, 3] (default_args ''all'') (\<lambda>i. (30, 30, 30)))) 3) = [''all'']"
    by code_simp
  show ?thesis
    by (rule conjI [OF h1 conjI [OF h2 conjI [OF h3 conjI [OF a conjI [OF b conjI [OF c
          conjI [OF d conjI [OF e conjI [OF f conjI [OF g1 conjI [OF g2 g3]]]]]]]]]]])
qed

section \<open>Input checks of creation\<close>





section \<open>Expiry\<close>

lemma get_recent_subset:
  "set (get_recent_notifications s u limit c uo pf) \<subseteq> set (user_notifications s u)"
proof -
  have t: "set (py_slice_to limit xs) \<subseteq> set xs" for xs :: "notification list"
    by (auto simp: py_slice_to_def dest: in_set_takeD)
  show ?thesis
    unfolding get_recent_notifications_def Let_def
    by (rule subset_trans [OF t]) (auto split: option.splits)
qed

lemma py_slice_to_all: "int (length xs) \<le> limit \<Longrightarrow> py_slice_to limit xs = xs"
  by (simp add: py_slice_to_def)

lemma get_recent_all:
  "int (length (user_notifications s u)) \<le> limit \<Longrightarrow>
     mset (get_recent_notifications s u limit None False None) = mset (user_notifications s u)"
  by (simp add: get_recent_notifications_def py_slice_to_all)

lemma get_unread_count_all:
  "get_unread_count s u None None = length (filter (\<lambda>n. \<not> n_read n) (user_notifications s u))"
  by (simp add: get_unread_count_def)

lemma stats_total: "st_total (get_notification_stats s u) = length (user_notifications s u)"
  by (simp add: get_notification_stats_def Let_def)

text \<open>
  C2 as stated fails: the record of \<open>store_expired\<close> expired at instant 5, before it was
  created at instant 10, and it is stored; the list, the unread count and the
  statistics of the user return and count it, also after it is marked read at
  instant 20.
\<close>

theorem queries_return_expired_counterexample:
  "map n_expires_at (user_notifications store_expired 1) = [Some (Aware 5)]
   \<and> map n_timestamp (user_notifications store_expired 1) = [10]
   \<and> get_recent_notifications store_expired 1 50 None False None = user_notifications store_expired 1
   \<and> get_unread_count store_expired 1 None None = 1
   \<and> st_total (get_notification_stats store_expired 1) = 1
   \<and> st_categories (get_notification_stats store_expired 1) ''system'' = Some 1
   \<and> map n_expires_at
        (get_recent_notifications (snd (mark_as_read store_expired 1 1 20)) 1 50 None False None)
        = [Some (Aware 5)]"
proof -
  have a: "map n_expires_at (user_notifications store_expired 1) = [Some (Aware 5)]" by code_simp
  have b: "map n_timestamp (user_notifications store_expired 1) = [10]" by code_simp
  have l: "length (user_notifications store_expired 1) = 1" by code_simp
  then obtain x where x: "user_notifications store_expired 1 = [x]"
    by (cases "user_notifications store_expired 1") auto
  have c: "get_recent_notifications store_expired 1 50 None False None = user_notifications store_expired 1"
    by (simp add: get_recent_notifications_def x py_slice_to_def)
  have d: "get_unread_count store_expired 1 None None = 1" by code_simp
  have e: "st_total (get_notification_stats store_expired 1) = 1" by code_simp
  have f: "st_categories (get_notification_stats store_expired 1) ''system'' = Some 1" by code_simp
  have g: "map n_expires_at
        (get_recent_notifications (snd (mark_as_read store_expired 1 1 20)) 1 50 None False None)
        = [Some (Aware 5)]" by code_simp
  show ?thesis
    by (rule conjI [OF a conjI [OF b conjI [OF c conjI [OF d conjI [OF e conjI [OF f g]]]]]])
qed


text \<open>
  C2 as amended: the list, the unread count and the statistics do not look at
  \<^verbatim>\<open>expires_at\<close>: they return and count what is stored for the user. Expired records
  are removed by \<^verbatim>\<open>create_notification\<close> only: a creation for the user that prunes at
  instant \<open>t3\<close> (and does not raise) leaves as the user's collection the stored records
  that have no expiry or an expiry later than \<open>t3\<close>, in their order, followed by the new
  record, which is stored whatever its own expiry. So after that creation the list
  returns, and the counts count, the new record and records unexpired at \<open>t3\<close> only.
\<close>

theorem create_prunes_expired:
  assumes "prunable s u"
  shows "user_notifications (fst (snd (create_notification s u a t1 t2 t3))) u
           = filter (unexpired t3) (user_notifications s u) @ [new_record (notification_id_counter s) u a t1 t2]
       \<and> (\<forall>m \<in> set (get_recent_notifications (fst (snd (create_notification s u a t1 t2 t3))) u limit c uo pf).
             m = new_record (notification_id_counter s) u a t1 t2 \<or> unexpired t3 m)
       \<and> st_total (get_notification_stats (fst (snd (create_notification s u a t1 t2 t3))) u)
           = length (filter (unexpired t3) (user_notifications s u)) + 1
       \<and> get_unread_count (fst (snd (create_notification s u a t1 t2 t3))) u None None
           = length (filter (\<lambda>m. \<not> n_read m) (filter (unexpired t3) (user_notifications s u))) + 1
       \<and> (int (length (user_notifications s u)) \<le> limit \<longrightarrow>
             mset (get_recent_notifications s u limit None False None) = mset (user_notifications s u))
       \<and> st_total (get_notification_stats s u) = length (user_notifications s u)
       \<and> get_unread_count s u None None = length (filter (\<lambda>m. \<not> n_read m) (user_notifications s u))"
proof -
  let ?s' = "fst (snd (create_notification s u a t1 t2 t3))"
  let ?n = "new_record (notification_id_counter s) u a t1 t2"
  have un: "user_notifications ?s' u = filter (unexpired t3) (user_notifications s u) @ [?n]"
    using assms by (simp add: create_user_notifications)
  have "\<forall>m \<in> set (get_recent_notifications ?s' u limit c uo pf). m = ?n \<or> unexpired t3 m"
    using get_recent_subset [of ?s' u limit c uo pf] unfolding un by auto
  moreover have "st_total (get_notification_stats ?s' u) = length (filter (unexpired t3) (user_notifications s u)) + 1"
    unfolding stats_total un by simp
  moreover have "get_unread_count ?s' u None None
      = length (filter (\<lambda>m. \<not> n_read m) (filter (unexpired t3) (user_notifications s u))) + 1"
    unfolding get_unread_count_all un by (simp add: new_record_def)
  ultimately show ?thesis
    using un get_recent_all [of s u limit] stats_total [of s u] get_unread_count_all [of s u]
    by blast
qed

theorem create_prunes_expired_witness:
  "prunable store_expired 1
   \<and> user_notifications (fst (snd (create_notification store_expired 1 (default_args ''new'') 30 30 30))) 1
        = filter (unexpired 30) (user_notifications store_expired 1)
            @ [new_record (notification_id_counter store_expired) 1 (default_args ''new'') 30 30]
   \<and> st_total (get_notification_stats (fst (snd (create_notification store_expired 1 (default_args ''new'') 30 30 30))) 1)
        = length (filter (unexpired 30) (user_notifications store_expired 1)) + 1
   \<and> filter (unexpired 30) (user_notifications store_expired 1) = []
   \<and> map n_message (get_recent_notifications
          (fst (snd (create_notification store_expired 1 (default_args ''new'') 30 30 30))) 1 50 None False None)
        = [''new'']"
proof -
  have h: "prunable store_expired 1" by code_simp
  note t = create_prunes_expired [OF h, of "default_args ''new''" 30 30 30 50 None False None]
  from t have a: "user_notifications (fst (snd (create_notification store_expired 1 (default_args ''new'') 30 30 30))) 1
        = filter (unexpired 30) (user_notifications store_expired 1)
            @ [new_record (notification_id_counter store_expired) 1 (default_args ''new'') 30 30]"
    by (rule conjunct1)
  from t have b: "st_total (get_notification_stats (fst (snd (create_notification store_expired 1 (default_args ''new'') 30 30 30))) 1)
        = length (filter (unexpired 30) (user_notifications store_expired 1)) + 1"
    by (rule conjunct2 [THEN conjunct2, THEN conjunct1])
  have c: "filter (unexpired 30) (user_notifications store_expired 1) = []" by code_simp
  have d: "map n_message (get_recent_notifications
          (fst (snd (create_notification store_expired 1 (default_args ''new'') 30 30 30))) 1 50 None False None)
        = [''new'']" by code_simp
  show ?thesis by (rule conjI [OF h conjI [OF a conjI [OF b conjI [OF c d]]]])
qed

section \<open>The list of a user's notifications\<close>




subsection \<open>Float timestamps\<close>







subsection \<open>The claim\<close>




end
